theory Spec2Isabelle
  imports Complex_Main
begin

section \<open>Arrays\<close>

text \<open>
  The program works on JAX arrays. An array is modelled by its shape, its element type tag
  and its elements, given as a function from an index (one coordinate per axis) to the
  value. Only the values at indices inside the shape matter. Floating-point numbers are
  modelled by the real and complex numbers they approximate: the arithmetic is exact, and
  the element type tag records which machine type the program would use. The one operation
  that is not exact is the cast of a double-precision array to single precision, which
  rounds every element to the nearest single-precision number.
\<close>

datatype dtype = Float16 | BFloat16 | Float32 | Float64 | Complex64 | Complex128

datatype error = NotImplementedError | ValueError | IndexError | TypeError

record 'a array =
  shape :: "nat list"
  dtype :: dtype
  item :: "nat list \<Rightarrow> 'a"

definition ndim :: "'a array \<Rightarrow> nat" where
  "ndim x = length (shape x)"

text \<open>The indices of a shape, in row-major order, and the test that an index lies inside.\<close>

fun indices :: "nat list \<Rightarrow> nat list list" where
  "indices [] = [[]]"
| "indices (n # ns) = concat (map (\<lambda>i. map ((#) i) (indices ns)) [0..<n])"

definition in_bounds :: "nat list \<Rightarrow> nat list \<Rightarrow> bool" where
  "in_bounds sh idx = list_all2 (<) idx sh"

text \<open>
  Two arrays hold the same data when their shapes agree and so do their elements at every
  index of the shape; they are the same array when the element type agrees as well.
\<close>

definition same_values :: "'a array \<Rightarrow> 'a array \<Rightarrow> bool" where
  "same_values x y =
     (shape x = shape y \<and> (\<forall>idx \<in> set (indices (shape x)). item x idx = item y idx))"

definition same_array :: "'a array \<Rightarrow> 'a array \<Rightarrow> bool" where
  "same_array x y = (dtype x = dtype y \<and> same_values x y)"

text \<open>Modelled from the spec: the element types of the host library, a real floating-point
  type being promoted to the complex type of its width (of single width for the half
  types): the element type of a complex result, that of the real part of a complex array,
  and that of an arithmetic operation on two arrays.\<close>

fun to_complex_dtype :: "dtype \<Rightarrow> dtype" where
  "to_complex_dtype Float64 = Complex128"
| "to_complex_dtype Complex128 = Complex128"
| "to_complex_dtype _ = Complex64"

fun real_dtype :: "dtype \<Rightarrow> dtype" where
  "real_dtype Complex64 = Float32"
| "real_dtype Complex128 = Float64"
| "real_dtype d = d"

fun promote_types :: "dtype \<Rightarrow> dtype \<Rightarrow> dtype" where
  "promote_types a b =
     (if a = b then a
      else if a = Complex128 \<or> b = Complex128 then Complex128
      else if (a = Complex64 \<and> b = Float64) \<or> (a = Float64 \<and> b = Complex64) then Complex128
      else if a = Complex64 \<or> b = Complex64 then Complex64
      else if a = Float64 \<or> b = Float64 then Float64
      else Float32)"

section \<open>Array primitives of the host library\<close>

text \<open>
  The primitives below belong to the host array library, not to the file under
  verification. Each is modelled from its documented meaning and from the list of
  collaborators the specification gives (slice, reverse, concatenate, pad-with-constant,
  elementwise arithmetic, broadcast-compatible shape expansion, roll, flip, and the
  forward and inverse complex FFT along an axis). The transform functions call the
  axis-wise primitives with an axis that has been canonicalized, so the axis is a natural
  number here. The errors of the host library that the model has are an axis out of range,
  a negative length after padding, and in \<open>fftn\<close> a repeated axis or two axes that name the
  same dimension. On an axis of length zero
  the host library rejects the strided slice of the interleave and the fill of the scaling
  factor; the model has no error there, and the theorems about transformed elements are
  stated for axes of length at least one, the lengths with which the kernel runs.
\<close>

text \<open>Modelled from the spec: \<open>canonicalize_axis\<close> of the host library. A negative axis maps
  to rank + axis; an axis outside [-rank, rank-1] is reported.\<close>

definition canonicalize_axis :: "int \<Rightarrow> nat \<Rightarrow> error + nat" where
  "canonicalize_axis axis num_dims =
     (if \<not> (- int num_dims \<le> axis \<and> axis < int num_dims) then Inl ValueError
      else if axis < 0 then Inr (nat (axis + int num_dims))
      else Inr (nat axis))"

text \<open>A Python slice \<open>start:stop:step\<close> with a positive step, applied to a length.\<close>

type_synonym slice = "nat option \<times> nat option \<times> nat"

definition slice_start :: "slice \<Rightarrow> nat \<Rightarrow> nat" where
  "slice_start sl n = (case fst sl of None \<Rightarrow> 0 | Some a \<Rightarrow> min a n)"

definition slice_stop :: "slice \<Rightarrow> nat \<Rightarrow> nat" where
  "slice_stop sl n = (case fst (snd sl) of None \<Rightarrow> n | Some b \<Rightarrow> min b n)"

definition slice_len :: "slice \<Rightarrow> nat \<Rightarrow> nat" where
  "slice_len sl n =
     (slice_stop sl n - slice_start sl n + snd (snd sl) - 1) div snd (snd sl)"

text \<open>Modelled from the spec: \<open>lax.slice_in_dim(x, start, limit, stride, axis)\<close>, the
  axis-aware strided slice.\<close>

definition lax_slice_in_dim ::
  "'a array \<Rightarrow> nat option \<Rightarrow> nat option \<Rightarrow> nat \<Rightarrow> nat \<Rightarrow> 'a array" where
  "lax_slice_in_dim x start limit stride axis =
     \<lparr>shape = (shape x)[axis := slice_len (start, limit, stride) (shape x ! axis)],
      dtype = dtype x,
      item = (\<lambda>idx. item x
        (idx[axis := slice_start (start, limit, stride) (shape x ! axis) + stride * (idx ! axis)]))\<rparr>"

text \<open>Modelled from the spec: \<open>x[ix]\<close> where the index is a slice on one axis and the full
  range on every other axis.\<close>

definition getitem_slice :: "'a array \<Rightarrow> nat \<Rightarrow> slice \<Rightarrow> 'a array" where
  "getitem_slice x axis sl = lax_slice_in_dim x (fst sl) (fst (snd sl)) (snd (snd sl)) axis"

text \<open>Modelled from the spec: \<open>lax.rev(x, dimensions)\<close>, reversal along the listed axes.\<close>

definition lax_rev :: "'a array \<Rightarrow> nat list \<Rightarrow> 'a array" where
  "lax_rev x dimensions =
     x\<lparr>item := (\<lambda>idx. item x
        (fold (\<lambda>a i. i[a := shape x ! a - 1 - i ! a]) dimensions idx))\<rparr>"

text \<open>Modelled from the spec: \<open>lax.concatenate([v0, v1], axis)\<close>; the program always passes
  two operands.\<close>

definition lax_concatenate :: "'a array \<Rightarrow> 'a array \<Rightarrow> nat \<Rightarrow> 'a array" where
  "lax_concatenate v0 v1 axis =
     \<lparr>shape = (shape v0)[axis := shape v0 ! axis + shape v1 ! axis],
      dtype = promote_types (dtype v0) (dtype v1),
      item = (\<lambda>idx. if idx ! axis < shape v0 ! axis then item v0 idx
                    else item v1 (idx[axis := idx ! axis - shape v0 ! axis]))\<rparr>"

text \<open>Modelled from the spec: \<open>jnp.zeros(shape, dtype)\<close> and \<open>lax.full(shape, value, dtype)\<close>.\<close>

definition lax_full :: "nat list \<Rightarrow> 'a \<Rightarrow> dtype \<Rightarrow> 'a array" where
  "lax_full sh v d = \<lparr>shape = sh, dtype = d, item = (\<lambda>idx. v)\<rparr>"

definition jnp_zeros :: "nat list \<Rightarrow> dtype \<Rightarrow> 'a::zero array" where
  "jnp_zeros sh d = lax_full sh 0 d"

text \<open>Modelled from the spec: \<open>out.at[ix].set(v)\<close> where the index is a slice on one axis
  and the full range elsewhere: the positions of the slice take the elements of \<open>v\<close> in
  order, every other position keeps its element.\<close>

definition at_set :: "'a array \<Rightarrow> nat \<Rightarrow> slice \<Rightarrow> 'a array \<Rightarrow> 'a array" where
  "at_set out axis sl v =
     out\<lparr>item := (\<lambda>idx.
        let n = shape out ! axis; i = idx ! axis; a = slice_start sl n; st = snd (snd sl)
        in if a \<le> i \<and> i < slice_stop sl n \<and> (i - a) mod st = 0
           then item v (idx[axis := (i - a) div st])
           else item out idx)\<rparr>"

text \<open>Modelled from the spec: \<open>lax.pad(x, value, config)\<close>, the pad-with-constant primitive.
  The configuration gives, per axis, the low padding, the high padding and the interior
  padding; a negative low or high padding removes elements, and a resulting negative
  length is reported.\<close>

definition pad_length :: "nat \<Rightarrow> int \<times> int \<times> int \<Rightarrow> int" where
  "pad_length n c =
     (case c of (lo, hi, interior) \<Rightarrow>
        lo + hi + int n + (if n = 0 then 0 else int (n - 1) * interior))"

definition pad_source :: "nat \<Rightarrow> nat \<Rightarrow> int \<times> int \<times> int \<Rightarrow> nat option" where
  "pad_source n i c =
     (case c of (lo, hi, interior) \<Rightarrow>
        let j = int i - lo
        in if 0 \<le> j \<and> j mod (interior + 1) = 0 \<and> j div (interior + 1) < int n
           then Some (nat (j div (interior + 1))) else None)"

definition lax_pad :: "'a array \<Rightarrow> 'a \<Rightarrow> (int \<times> int \<times> int) list \<Rightarrow> error + 'a array" where
  "lax_pad x v config =
     (let lens = map2 pad_length (shape x) config
      in if length config \<noteq> ndim x \<or> (\<exists>c \<in> set config. snd (snd c) < 0)
            \<or> (\<exists>l \<in> set lens. l < 0)
         then Inl ValueError
         else Inr \<lparr>shape = map nat lens, dtype = dtype x,
                item = (\<lambda>idx.
                  let src = map2 (\<lambda>(n, i) c. pad_source n i c) (zip (shape x) idx) config
                  in if None \<in> set src then v else item x (map the src))\<rparr>)"

text \<open>Modelled from the spec: \<open>jnp.arange(N, dtype)\<close>, the one-dimensional array of the
  numbers 0..N-1.\<close>

definition jnp_arange :: "nat \<Rightarrow> dtype \<Rightarrow> 'a::semiring_1 array" where
  "jnp_arange n d = \<lparr>shape = [n], dtype = d, item = (\<lambda>idx. of_nat (idx ! 0))\<rparr>"

text \<open>Modelled from the spec: \<open>lax.expand_dims(x, dimensions)\<close>, the shape expansion that
  inserts an axis of length one at each listed position of the result.\<close>

definition lax_expand_dims :: "'a array \<Rightarrow> nat list \<Rightarrow> 'a array" where
  "lax_expand_dims x dimensions =
     (let r = ndim x + length (remdups dimensions);
          kept = [a \<leftarrow> [0..<r]. a \<notin> set dimensions]
      in \<lparr>shape = map (\<lambda>a. if a \<in> set dimensions then 1
                            else shape x ! length [b \<leftarrow> [0..<a]. b \<notin> set dimensions]) [0..<r],
          dtype = dtype x,
          item = (\<lambda>idx. item x (map ((!) idx) kept))\<rparr>)"

text \<open>Modelled from the spec: elementwise arithmetic on two arrays of the same rank, with
  broadcasting of the axes of length one, and the element type of the result.\<close>

definition broadcast_shapes :: "nat list \<Rightarrow> nat list \<Rightarrow> nat list" where
  "broadcast_shapes s t = map2 (\<lambda>a b. if a = 1 then b else a) s t"

definition broadcast_index :: "nat list \<Rightarrow> nat list \<Rightarrow> nat list" where
  "broadcast_index sh idx = map2 (\<lambda>n i. if n = 1 then 0 else i) sh idx"

definition elementwise :: "('a \<Rightarrow> 'a \<Rightarrow> 'a) \<Rightarrow> 'a array \<Rightarrow> 'a array \<Rightarrow> 'a array" where
  "elementwise f a b =
     \<lparr>shape = broadcast_shapes (shape a) (shape b),
      dtype = promote_types (dtype a) (dtype b),
      item = (\<lambda>idx. f (item a (broadcast_index (shape a) idx))
                       (item b (broadcast_index (shape b) idx)))\<rparr>"

definition array_add :: "'a::plus array \<Rightarrow> 'a array \<Rightarrow> 'a array" where
  "array_add a b = elementwise (+) a b"

definition array_mul :: "'a::times array \<Rightarrow> 'a array \<Rightarrow> 'a array" where
  "array_mul a b = elementwise (*) a b"

definition array_div :: "'a::inverse array \<Rightarrow> 'a array \<Rightarrow> 'a array" where
  "array_div a b = elementwise (/) a b"

text \<open>Modelled from the spec: arithmetic of an array with a Python scalar, which keeps the
  element type of the array, and the elementwise functions.\<close>

definition array_map :: "('a \<Rightarrow> 'a) \<Rightarrow> 'a array \<Rightarrow> 'a array" where
  "array_map f a = a\<lparr>item := (\<lambda>idx. f (item a idx))\<rparr>"

definition scalar_mul :: "'a::times \<Rightarrow> 'a array \<Rightarrow> 'a array" where
  "scalar_mul c a = array_map (\<lambda>v. c * v) a"

definition mul_scalar :: "'a::times array \<Rightarrow> 'a \<Rightarrow> 'a array" where
  "mul_scalar a c = array_map (\<lambda>v. v * c) a"

definition div_scalar :: "'a::inverse array \<Rightarrow> 'a \<Rightarrow> 'a array" where
  "div_scalar a c = array_map (\<lambda>v. v / c) a"

definition array_neg :: "'a::uminus array \<Rightarrow> 'a array" where
  "array_neg a = array_map uminus a"

definition lax_sqrt :: "real array \<Rightarrow> real array" where
  "lax_sqrt a = array_map sqrt a"

definition jnp_exp :: "complex array \<Rightarrow> complex array" where
  "jnp_exp a = array_map exp a"

text \<open>Modelled from the spec: the rounding of a real number to the nearest float32, which
  has 24 significant bits and the smallest exponent -126, a tie going to the even
  neighbour. A value beyond the largest float32 becomes infinite in the program; the model
  has no infinite value and rounds such a value as if the exponent had no upper bound.\<close>

definition round_half_even :: "real \<Rightarrow> int" where
  "round_half_even q =
     (let f = \<lfloor>q\<rfloor>; d = q - of_int f
      in if d < 1 / 2 then f else if 1 / 2 < d then f + 1 else if even f then f else f + 1)"

definition float32_round :: "real \<Rightarrow> real" where
  "float32_round r =
     (if r = 0 then 0
      else let e = max \<lfloor>log 2 \<bar>r\<bar>\<rfloor> (- 126); ulp = 2 powi (e - 23)
        in of_int (round_half_even (r / ulp)) * ulp)"

text \<open>Modelled from the spec: \<open>x.astype(dtype)\<close>. The program casts to float32 and to the
  complex types only. A cast to a type that holds every value of the source type keeps the
  values; a cast from double to single precision rounds them (the real and the imaginary
  part of a complex value). Then the inclusion of a real array into the complex arrays, and
  \<open>x.real\<close>.\<close>

definition cast_value :: "dtype \<Rightarrow> dtype \<Rightarrow> real \<Rightarrow> real" where
  "cast_value src dst v =
     (if (src = Float64 \<or> src = Complex128) \<and> (dst = Float32 \<or> dst = Complex64)
      then float32_round v else v)"

definition astype :: "real array \<Rightarrow> dtype \<Rightarrow> real array" where
  "astype x d =
     \<lparr>shape = shape x, dtype = d, item = (\<lambda>idx. cast_value (dtype x) d (item x idx))\<rparr>"

definition astype_complex :: "complex array \<Rightarrow> dtype \<Rightarrow> complex array" where
  "astype_complex x d =
     \<lparr>shape = shape x, dtype = d,
      item = (\<lambda>idx. Complex (cast_value (dtype x) d (Re (item x idx)))
                             (cast_value (dtype x) d (Im (item x idx))))\<rparr>"

definition complex_values :: "real array \<Rightarrow> complex array" where
  "complex_values x = \<lparr>shape = shape x, dtype = dtype x, item = (\<lambda>idx. complex_of_real (item x idx))\<rparr>"

definition real_part :: "complex array \<Rightarrow> real array" where
  "real_part x = \<lparr>shape = shape x, dtype = real_dtype (dtype x), item = (\<lambda>idx. Re (item x idx))\<rparr>"

text \<open>Modelled from the spec: \<open>promote_dtypes_complex(N, k)\<close>, which turns the Python integer
  and the index array into complex values of the complex type that belongs to the array.\<close>

definition promote_dtypes_complex :: "nat \<Rightarrow> complex array \<Rightarrow> complex \<times> complex array" where
  "promote_dtypes_complex n k = (of_nat n, astype_complex k (to_complex_dtype (dtype k)))"

text \<open>Modelled from the spec: \<open>jnp.flip(x, axis)\<close> and \<open>jnp.roll(x, shift, axis)\<close>.\<close>

definition jnp_flip :: "'a array \<Rightarrow> nat \<Rightarrow> 'a array" where
  "jnp_flip x axis = lax_rev x [axis]"

definition jnp_roll :: "'a array \<Rightarrow> int \<Rightarrow> nat \<Rightarrow> 'a array" where
  "jnp_roll x shift axis =
     x\<lparr>item := (\<lambda>idx. item x
        (idx[axis := nat ((int (idx ! axis) - shift) mod int (shape x ! axis))]))\<rparr>"

text \<open>Modelled from the spec: the forward and inverse complex FFT along an axis, the
  external collaborator that the specification assumes correct. They are the discrete
  Fourier transform and its inverse; a real input is first included into the complex
  arrays. \<open>jnp.fft.fftn\<close> transforms along each listed axis; it rejects a repeated axis, an
  axis out of range, and two axes that name the same dimension.\<close>

definition jnp_fft_fft :: "complex array \<Rightarrow> nat \<Rightarrow> complex array" where
  "jnp_fft_fft v axis =
     \<lparr>shape = shape v, dtype = to_complex_dtype (dtype v),
      item = (\<lambda>idx. \<Sum>m<shape v ! axis. item v (idx[axis := m])
                * cis (- (2 * pi * real (idx ! axis) * real m / real (shape v ! axis))))\<rparr>"

definition jnp_fft_ifft :: "complex array \<Rightarrow> nat \<Rightarrow> complex array" where
  "jnp_fft_ifft v axis =
     \<lparr>shape = shape v, dtype = to_complex_dtype (dtype v),
      item = (\<lambda>idx. (\<Sum>m<shape v ! axis. item v (idx[axis := m])
                * cis (2 * pi * real (idx ! axis) * real m / real (shape v ! axis)))
                / of_nat (shape v ! axis))\<rparr>"

text \<open>A \<open>for\<close> loop whose body may raise: the first error ends the loop.\<close>

fun for_loop :: "('b \<Rightarrow> 'a \<Rightarrow> error + 'b) \<Rightarrow> 'a list \<Rightarrow> 'b \<Rightarrow> error + 'b" where
  "for_loop body [] x = Inr x"
| "for_loop body (a # as) x =
     (case body x a of Inl e \<Rightarrow> Inl e | Inr y \<Rightarrow> for_loop body as y)"

definition jnp_fft_fftn :: "complex array \<Rightarrow> int list \<Rightarrow> error + complex array" where
  "jnp_fft_fftn v axes =
     (if \<not> distinct axes then Inl ValueError
      else case for_loop (\<lambda>bs a. case canonicalize_axis a (ndim v) of
                                  Inl e \<Rightarrow> Inl e | Inr axis \<Rightarrow> Inr (bs @ [axis])) axes [] of
          Inl e \<Rightarrow> Inl e
        | Inr bs \<Rightarrow> if \<not> distinct bs then Inl TypeError
                   else Inr (fold (\<lambda>axis y. jnp_fft_fft y axis) bs v))"

section \<open>Interleave and de-interleave\<close>

definition dct_interleave :: "'a array \<Rightarrow> nat \<Rightarrow> 'a array" where
  "dct_interleave x axis =
     (let v0 = lax_slice_in_dim x None None 2 axis;
          v1 = lax_rev (lax_slice_in_dim x (Some 1) None 2 axis) [axis]
      in lax_concatenate v0 v1 axis)"

definition dct_deinterleave :: "'a::zero array \<Rightarrow> nat \<Rightarrow> 'a array" where
  "dct_deinterleave x axis =
     (let ix0 = (None, Some ((shape x ! axis + 1) div 2), 1);
          ix1 = (Some ((shape x ! axis + 1) div 2), None, 1);
          v0 = getitem_slice x axis ix0;
          v1 = lax_rev (getitem_slice x axis ix1) [axis];
          out = jnp_zeros (shape x) (dtype x);
          evens = (None, None, 2);
          odds = (Some 1, None, 2);
          out = at_set out axis evens v0;
          out = at_set out axis odds v1
      in out)"

section \<open>The transforms\<close>

definition W4 :: "nat \<Rightarrow> complex array \<Rightarrow> complex array" where
  "W4 N k =
     (case promote_dtypes_complex N k of (N_arr, k) \<Rightarrow>
        jnp_exp (div_scalar (scalar_mul (- 0.5 * \<i> * complex_of_real pi) k) N_arr))"

text \<open>The orthonormal scaling. Its factor has the length \<open>1 + (N - 1)\<close>; on an axis of length
  zero the program asks for a fill of length -1, which the host library rejects, and the
  model has the length zero there: the scaling is used for axes of length at least one.\<close>

definition dct_ortho_norm :: "real array \<Rightarrow> nat \<Rightarrow> real array" where
  "dct_ortho_norm out axis =
     (let factor = lax_concatenate (lax_full [1] 4 (dtype out))
                     (lax_full [shape out ! axis - 1] 2 (dtype out)) 0;
          factor = lax_expand_dims factor [a \<leftarrow> [0..<ndim out]. a \<noteq> axis]
      in array_div out (lax_sqrt (mul_scalar factor (real (shape out ! axis)))))"

text \<open>The pad or truncate step of \<open>dct\<close> and \<open>idct\<close>: nothing when no length is requested.\<close>

definition pad_axis :: "'a::zero array \<Rightarrow> int option \<Rightarrow> nat \<Rightarrow> error + 'a array" where
  "pad_axis x n axis =
     (case n of None \<Rightarrow> Inr x
      | Some n \<Rightarrow> lax_pad x 0
          [(0, if a = axis then n - int (shape x ! axis) else 0, 0). a \<leftarrow> [0..<ndim x]])"

definition dct ::
  "real array \<Rightarrow> int \<Rightarrow> int option \<Rightarrow> int \<Rightarrow> string option \<Rightarrow> error + real array" where
  "dct x type n axis nrm =
     (if type \<noteq> 2 then Inl NotImplementedError
      else case canonicalize_axis axis (ndim x) of Inl e \<Rightarrow> Inl e | Inr axis \<Rightarrow>
        (case pad_axis x n axis of Inl e \<Rightarrow> Inl e | Inr x \<Rightarrow>
          (let N = shape x ! axis;
               v = dct_interleave x axis;
               V = jnp_fft_fft (complex_values v) axis;
               k = lax_expand_dims (jnp_arange N (real_dtype (dtype V)))
                     [a \<leftarrow> [0..<ndim x]. a \<noteq> axis];
               out = array_mul V (W4 N k);
               out = scalar_mul 2 (real_part out);
               out = (if nrm = Some ''ortho'' then dct_ortho_norm out axis else out)
           in Inr out)))"

definition dct2 :: "real array \<Rightarrow> int list \<Rightarrow> string option \<Rightarrow> error + real array" where
  "dct2 x axes nrm =
     (case axes of
        [a1, a2] \<Rightarrow>
          (case canonicalize_axis a1 (ndim x) of Inl e \<Rightarrow> Inl e | Inr axis1 \<Rightarrow>
          (case canonicalize_axis a2 (ndim x) of Inl e \<Rightarrow> Inl e | Inr axis2 \<Rightarrow>
            (let N1 = shape x ! axis1; N2 = shape x ! axis2;
                 v = dct_interleave (dct_interleave x axis1) axis2
             in case jnp_fft_fftn (complex_values v) axes of Inl e \<Rightarrow> Inl e | Inr V \<Rightarrow>
               (let k1 = lax_expand_dims (jnp_arange N1 (dtype V))
                           [a \<leftarrow> [0..<ndim x]. a \<noteq> axis1];
                    k2 = lax_expand_dims (jnp_arange N2 (dtype V))
                           [a \<leftarrow> [0..<ndim x]. a \<noteq> axis2];
                    out = array_mul (W4 N1 k1)
                            (array_add (array_mul (W4 N2 k2) V)
                               (array_mul (W4 N2 (array_neg k2))
                                  (jnp_roll (jnp_flip V axis2) 1 axis2)));
                    out = scalar_mul 2 (real_part out)
                in if nrm = Some ''ortho''
                   then Inr (dct_ortho_norm (dct_ortho_norm out axis1) axis2)
                   else Inr out))))
      | _ \<Rightarrow> Inl ValueError)"

text \<open>The pad or truncate step of \<open>dctn\<close> and \<open>idctn\<close>: the dictionary \<open>ns\<close> is built from the
  pairs of \<open>zip(axes, s)\<close>, a later pair replacing an earlier one with the same key, and is
  looked up at the axis numbers \<open>0..ndim-1\<close>.\<close>

definition pad_axes :: "'a::zero array \<Rightarrow> int list option \<Rightarrow> int list \<Rightarrow> error + 'a array" where
  "pad_axes x s axes =
     (case s of None \<Rightarrow> Inr x
      | Some s \<Rightarrow>
          (let ns = map_of (rev (zip axes s));
               pads = [(0, case ns (int a) of Some n \<Rightarrow> n - int (shape x ! a) | None \<Rightarrow> 0, 0).
                       a \<leftarrow> [0..<ndim x]]
           in lax_pad x 0 pads))"

text \<open>The argument \<open>n\<close> of the one-axis call: \<open>s[0] if s is not None else None\<close>.\<close>

definition first_length :: "int list option \<Rightarrow> error + int option" where
  "first_length s =
     (case s of None \<Rightarrow> Inr None
      | Some [] \<Rightarrow> Inl IndexError
      | Some (n # _) \<Rightarrow> Inr (Some n))"

text \<open>The blocks \<open>axes[i:i+2] for i in range(0, len(axes), 2)\<close>.\<close>

definition axes_blocks :: "int list \<Rightarrow> int list list" where
  "axes_blocks axes = [take 2 (drop (2 * j) axes). j \<leftarrow> [0..<(length axes + 1) div 2]]"

lemma for_loop_cong [fundef_cong]:
  "as = bs \<Longrightarrow> x = y \<Longrightarrow> (\<And>z a. a \<in> set bs \<Longrightarrow> f z a = g z a)
   \<Longrightarrow> for_loop f as x = for_loop g bs y"
  by (induction bs arbitrary: as x y) (auto split: sum.splits)

lemma axes_blocks_length: "b \<in> set (axes_blocks axes) \<Longrightarrow> length b \<le> 2"
  by (auto simp: axes_blocks_def)

function dctn ::
  "real array \<Rightarrow> int \<Rightarrow> int list option \<Rightarrow> int list option \<Rightarrow> string option
   \<Rightarrow> error + real array" where
  "dctn x type s axes nrm =
     (if type \<noteq> 2 then Inl NotImplementedError
      else let axes = (case axes of None \<Rightarrow> map int [0..<ndim x] | Some a \<Rightarrow> a)
        in if length axes = 1
           then (case first_length s of Inl e \<Rightarrow> Inl e
                 | Inr n \<Rightarrow> dct x 2 n (axes ! 0) nrm)
           else (case pad_axes x s axes of Inl e \<Rightarrow> Inl e | Inr x \<Rightarrow>
             if length axes = 2 then dct2 x axes nrm
             else for_loop (\<lambda>x axes_block. dctn x 2 None (Some axes_block) nrm)
                    (axes_blocks axes) x))"
  by pat_completeness auto
termination
proof (relation "measure (\<lambda>(x, type, s, axes, nrm).
         case axes of None \<Rightarrow> ndim x | Some a \<Rightarrow> length a)")
  show "wf (measure (\<lambda>(x, type, s, axes, nrm).
         case axes of None \<Rightarrow> ndim x | Some a \<Rightarrow> length a))"
    by simp
next
  fix x :: "real array" and type :: int and s axes :: "int list option"
    and nrm :: "string option" and xa :: "int list" and x2 z :: "real array"
    and a :: "int list"
  assume len: "length xa \<noteq> 1" "length xa \<noteq> 2"
    and xa: "xa = (case axes of None \<Rightarrow> map int [0..<ndim x] | Some a \<Rightarrow> a)"
    and a: "a \<in> set (axes_blocks xa)"
  from a have "length a \<le> 2" by (rule axes_blocks_length)
  moreover from a have "length xa \<noteq> 0" by (auto simp: axes_blocks_def)
  ultimately have "length a < length xa"
    using len by linarith
  then show "((z, 2, None, Some a, nrm), (x, type, s, axes, nrm))
      \<in> measure (\<lambda>(x, type, s, axes, nrm).
         case axes of None \<Rightarrow> ndim x | Some a \<Rightarrow> length a)"
    using xa by (auto simp: ndim_def split: option.splits)
qed

definition idct ::
  "real array \<Rightarrow> int \<Rightarrow> int option \<Rightarrow> int \<Rightarrow> string option \<Rightarrow> error + real array" where
  "idct x type n axis nrm =
     (if type \<noteq> 2 then Inl NotImplementedError
      else case canonicalize_axis axis (ndim x) of Inl e \<Rightarrow> Inl e | Inr axis \<Rightarrow>
        (case pad_axis x n axis of Inl e \<Rightarrow> Inl e | Inr x \<Rightarrow>
          (let N = shape x ! axis;
               x = astype x Float32;
               x = (if nrm = None then dct_ortho_norm x axis else x);
               x = dct_ortho_norm x axis;
               k = lax_expand_dims (jnp_arange N Float32) [a \<leftarrow> [0..<ndim x]. a \<noteq> axis];
               w4 = W4 N k;
               x = astype_complex (complex_values x) (dtype w4);
               x = array_div x (W4 N k);
               x = mul_scalar (mul_scalar x 2) (of_nat N);
               x = jnp_fft_ifft x axis;
               out = dct_deinterleave (real_part x) axis
           in Inr out)))"

definition idctn ::
  "real array \<Rightarrow> int \<Rightarrow> int list option \<Rightarrow> int list option \<Rightarrow> string option
   \<Rightarrow> error + real array" where
  "idctn x type s axes nrm =
     (if type \<noteq> 2 then Inl NotImplementedError
      else let axes = (case axes of None \<Rightarrow> map int [0..<ndim x] | Some a \<Rightarrow> a)
        in if length axes = 1
           then (case first_length s of Inl e \<Rightarrow> Inl e
                 | Inr n \<Rightarrow> idct x 2 n (axes ! 0) nrm)
           else (case pad_axes x s axes of Inl e \<Rightarrow> Inl e | Inr x \<Rightarrow>
             for_loop (\<lambda>x axis. idct x 2 None axis nrm) axes x))"

text \<open>Where an output position of the interleave reads from, and likewise for the
  de-interleave.\<close>

definition interleave_index :: "nat \<Rightarrow> nat \<Rightarrow> nat" where
  "interleave_index n k = (if k < (n + 1) div 2 then 2 * k else 2 * (n - 1 - k) + 1)"

definition deinterleave_index :: "nat \<Rightarrow> nat \<Rightarrow> nat" where
  "deinterleave_index n i = (if even i then i div 2 else n - 1 - i div 2)"

text \<open>Example inputs.\<close>

definition odd_example :: "int array" where
  "odd_example = \<lparr>shape = [5], dtype = Float32, item = (\<lambda>idx. 10 + int (idx ! 0))\<rparr>"

section \<open>Facts about indices\<close>

lemma set_indices: "set (indices sh) = {idx. in_bounds sh idx}"
proof (induction sh)
  case Nil
  show ?case by (auto simp: in_bounds_def)
next
  case (Cons n ns)
  have "\<And>idx. idx \<in> set (indices (n # ns)) \<longleftrightarrow> in_bounds (n # ns) idx"
  proof -
    fix idx
    show "idx \<in> set (indices (n # ns)) \<longleftrightarrow> in_bounds (n # ns) idx"
      using Cons by (cases idx) (auto simp: in_bounds_def)
  qed
  then show ?case by blast
qed

lemma in_bounds_length: "in_bounds sh idx \<Longrightarrow> length idx = length sh"
  by (simp add: in_bounds_def list_all2_lengthD)

lemma in_bounds_nth: "in_bounds sh idx \<Longrightarrow> a < length sh \<Longrightarrow> idx ! a < sh ! a"
  by (simp add: in_bounds_def list_all2_nthD2)

lemma in_bounds_update:
  "in_bounds sh idx \<Longrightarrow> k < n \<Longrightarrow> in_bounds (sh[a := n]) (idx[a := k])"
proof (cases "a < length sh")
  case True
  assume "in_bounds sh idx" "k < n"
  with True show ?thesis
    unfolding in_bounds_def list_all2_conv_all_nth
    by (simp add: nth_list_update)
next
  case False
  assume b: "in_bounds sh idx"
  then have "length idx = length sh"
    by (simp add: in_bounds_def list_all2_lengthD)
  with False have "idx[a := k] = idx" "sh[a := n] = sh"
    by (simp_all add: list_update_beyond)
  with b show ?thesis by simp
qed

lemma in_bounds_update_same:
  "in_bounds sh idx \<Longrightarrow> a < length sh \<Longrightarrow> k < sh ! a \<Longrightarrow> in_bounds sh (idx[a := k])"
  using in_bounds_update [of sh idx k "sh ! a" a] by simp

lemma same_values_iff:
  "same_values x y \<longleftrightarrow>
     shape x = shape y \<and> (\<forall>idx. in_bounds (shape x) idx \<longrightarrow> item x idx = item y idx)"
  by (auto simp: same_values_def set_indices)

section \<open>Facts about interleave and de-interleave\<close>

lemma half_le: "((n::nat) + 1) div 2 \<le> n"
  by linarith

lemma half_sum: "((n::nat) + 1) div 2 + n div 2 = n"
  by linarith

lemma interleave_len: "((n::nat) + 1) div 2 + (n - min 1 n + 1) div 2 = n"
  using half_sum [of n] by (cases n) (simp_all add: min_def)

lemma interleave_tail:
  assumes "k < n" "\<not> k < (n + 1) div 2"
  shows "min 1 n + 2 * ((n - min 1 n + 1) div 2 - 1 - (k - (n + 1) div 2))
      = 2 * (n - 1 - k) + (1::nat)"
proof -
  have m: "min 1 n = 1" using assms by simp
  have h: "(n + 1) div 2 + n div 2 = n" by (rule half_sum)
  have "(n - 1 + 1) div 2 = n div 2" using assms by simp
  with m h assms show ?thesis by simp
qed

lemma odd_position: "k < n \<Longrightarrow> odd k \<Longrightarrow> min 1 n \<le> k \<and> (k - min 1 n) mod 2 = (0::nat)"
  by (auto elim!: oddE)

lemma even_position:
  "k < n \<Longrightarrow> even k \<Longrightarrow> \<not> (min 1 n \<le> k \<and> (k - min 1 n) mod 2 = (0::nat))"
  by (cases "k = 0") (auto elim!: evenE simp: mod_2_eq_odd)

lemma deinterleave_tail:
  assumes "k < n" "odd k"
  shows "min ((n + 1) div 2) n + (n - min ((n + 1) div 2) n - 1 - (k - min 1 n) div 2)
      = n - 1 - k div (2::nat)"
proof -
  obtain j where j: "k = 2 * j + 1" using assms(2) by (rule oddE)
  have m: "min 1 n = 1" using assms by simp
  have m2: "min ((n + 1) div 2) n = (n + 1) div 2" using half_le [of n] by simp
  have h: "(n + 1) div 2 + n div 2 = n" by (rule half_sum)
  have "j + 1 \<le> n div 2" using assms(1) j by linarith
  with h show ?thesis unfolding m m2 j by simp
qed

lemmas slice_defs = slice_len_def slice_start_def slice_stop_def

lemma shape_dct_interleave: "shape (dct_interleave x axis) = shape x"
proof (cases "axis < length (shape x)")
  case True
  then show ?thesis
    using interleave_len [of "shape x ! axis"]
    by (simp add: dct_interleave_def lax_concatenate_def lax_slice_in_dim_def lax_rev_def
        slice_defs Let_def)
next
  case False
  then show ?thesis
    by (simp add: dct_interleave_def lax_concatenate_def lax_slice_in_dim_def lax_rev_def
        list_update_beyond Let_def)
qed

lemma dtype_dct_interleave: "dtype (dct_interleave x axis) = dtype x"
  by (simp add: dct_interleave_def lax_concatenate_def lax_slice_in_dim_def lax_rev_def Let_def)

lemma item_dct_interleave:
  assumes "in_bounds (shape x) idx" "axis < length (shape x)"
  shows "item (dct_interleave x axis) idx =
         item x (idx[axis := interleave_index (shape x ! axis) (idx ! axis)])"
proof -
  define n where "n = shape x ! axis"
  define k where "k = idx ! axis"
  have l: "axis < length idx" using assms by (simp add: in_bounds_length)
  have k: "k < n" unfolding k_def n_def using assms by (rule in_bounds_nth)
  have raw: "item (dct_interleave x axis) idx =
     item x (idx[axis := (if k < (n + 1) div 2 then 2 * k
        else min 1 n + 2 * ((n - min 1 n + 1) div 2 - 1 - (k - (n + 1) div 2)))])"
    using l assms(2) unfolding k_def n_def
    by (simp add: dct_interleave_def lax_concatenate_def lax_slice_in_dim_def lax_rev_def
        slice_defs Let_def)
  have "(if k < (n + 1) div 2 then 2 * k
        else min 1 n + 2 * ((n - min 1 n + 1) div 2 - 1 - (k - (n + 1) div 2)))
      = interleave_index n k"
  proof (cases "k < (n + 1) div 2")
    case True
    then show ?thesis by (simp only: interleave_index_def if_True)
  next
    case False
    with interleave_tail [OF k False] show ?thesis
      by (simp only: interleave_index_def if_False)
  qed
  with raw show ?thesis unfolding k_def n_def by (simp only:)
qed

lemma shape_dct_deinterleave: "shape (dct_deinterleave x axis) = shape x"
  by (simp add: dct_deinterleave_def at_set_def jnp_zeros_def lax_full_def Let_def)

lemma dtype_dct_deinterleave: "dtype (dct_deinterleave x axis) = dtype x"
  by (simp add: dct_deinterleave_def at_set_def jnp_zeros_def lax_full_def Let_def)

lemma item_dct_deinterleave:
  assumes "in_bounds (shape x) idx" "axis < length (shape x)"
  shows "item (dct_deinterleave x axis) idx =
         item x (idx[axis := deinterleave_index (shape x ! axis) (idx ! axis)])"
proof -
  define n where "n = shape x ! axis"
  define k where "k = idx ! axis"
  have l: "axis < length idx" using assms by (simp add: in_bounds_length)
  have k: "k < n" unfolding k_def n_def using assms by (rule in_bounds_nth)
  have raw: "item (dct_deinterleave x axis) idx =
     (if min 1 n \<le> k \<and> (k - min 1 n) mod 2 = 0
      then item x (idx[axis := min ((n + 1) div 2) n
                  + (n - min ((n + 1) div 2) n - 1 - (k - min 1 n) div 2)])
      else if k mod 2 = 0 then item x (idx[axis := k div 2]) else 0)"
    using l assms(2) k unfolding k_def n_def
    by (simp add: dct_deinterleave_def at_set_def jnp_zeros_def lax_full_def Let_def
          getitem_slice_def lax_slice_in_dim_def lax_rev_def slice_defs)
  show ?thesis
  proof (cases "even k")
    case True
    from even_position [OF k True] True raw
    have "item (dct_deinterleave x axis) idx = item x (idx[axis := k div 2])"
      by (simp only: if_False if_True even_iff_mod_2_eq_zero simp_thms)
    with True show ?thesis
      unfolding deinterleave_index_def k_def n_def by (simp only: if_True)
  next
    case False
    from odd_position [OF k False] deinterleave_tail [OF k False] raw
    have "item (dct_deinterleave x axis) idx = item x (idx[axis := n - 1 - k div 2])"
      by (simp only: if_True simp_thms)
    with False show ?thesis
      unfolding deinterleave_index_def k_def n_def by (simp only: if_False)
  qed
qed

lemma interleave_deinterleave_index:
  assumes "k < n" shows "interleave_index n (deinterleave_index n k) = k"
proof (cases "even k")
  case True
  then obtain j where "k = 2 * j" by (rule evenE)
  with assms show ?thesis
    unfolding interleave_index_def deinterleave_index_def by simp
next
  case False
  then obtain j where "k = 2 * j + 1" by (rule oddE)
  with assms show ?thesis
    unfolding interleave_index_def deinterleave_index_def by simp
qed

lemma deinterleave_interleave_index:
  assumes "k < n" shows "deinterleave_index n (interleave_index n k) = k"
  using assms unfolding interleave_index_def deinterleave_index_def
  by (cases "k < (n + 1) div 2") simp_all

lemma interleave_index_less: "k < n \<Longrightarrow> interleave_index n k < n"
  unfolding interleave_index_def by (simp, linarith)

lemma deinterleave_index_less: "k < n \<Longrightarrow> deinterleave_index n k < n"
  unfolding deinterleave_index_def by (simp; linarith)


lemma deinterleave_interleave_item:
  assumes "in_bounds (shape x) idx" "axis < length (shape x)"
  shows "item (dct_deinterleave (dct_interleave x axis) axis) idx = item x idx"
proof -
  let ?n = "shape x ! axis"
  let ?k = "idx ! axis"
  have l: "axis < length idx" using assms by (simp add: in_bounds_length)
  have k: "?k < ?n" using assms by (rule in_bounds_nth)
  have b: "in_bounds (shape x) (idx[axis := deinterleave_index ?n ?k])"
    using assms k by (simp add: in_bounds_update_same deinterleave_index_less)
  have "item (dct_deinterleave (dct_interleave x axis) axis) idx
      = item (dct_interleave x axis) (idx[axis := deinterleave_index ?n ?k])"
    using assms by (simp add: item_dct_deinterleave shape_dct_interleave)
  also have "\<dots> = item x (idx[axis := interleave_index ?n (deinterleave_index ?n ?k)])"
    using b assms(2) l by (simp add: item_dct_interleave)
  also have "\<dots> = item x idx"
    using k by (simp add: interleave_deinterleave_index)
  finally show ?thesis .
qed

lemma interleave_deinterleave_item:
  assumes "in_bounds (shape x) idx" "axis < length (shape x)"
  shows "item (dct_interleave (dct_deinterleave x axis) axis) idx = item x idx"
proof -
  let ?n = "shape x ! axis"
  let ?k = "idx ! axis"
  have l: "axis < length idx" using assms by (simp add: in_bounds_length)
  have k: "?k < ?n" using assms by (rule in_bounds_nth)
  have b: "in_bounds (shape x) (idx[axis := interleave_index ?n ?k])"
    using assms k by (simp add: in_bounds_update_same interleave_index_less)
  have "item (dct_interleave (dct_deinterleave x axis) axis) idx
      = item (dct_deinterleave x axis) (idx[axis := interleave_index ?n ?k])"
    using assms by (simp add: item_dct_interleave shape_dct_deinterleave)
  also have "\<dots> = item x (idx[axis := deinterleave_index ?n (interleave_index ?n ?k)])"
    using b assms(2) l by (simp add: item_dct_deinterleave)
  also have "\<dots> = item x idx"
    using k by (simp add: deinterleave_interleave_index)
  finally show ?thesis .
qed

section \<open>Interleave and de-interleave are inverse to each other\<close>

text \<open>
  Claim C3. For every array \<open>x\<close> and every valid axis of length at least one, de-interleaving
  the interleaved array gives back \<open>x\<close>, and interleaving the de-interleaved array gives back
  \<open>x\<close>: the same shape, the same element type and the same element at every index, whether
  the length of the axis is even or odd. No arithmetic on the elements is involved.
\<close>

theorem interleave_deinterleave_inverse:
  fixes x :: "'a::zero array"
  assumes "axis < ndim x" "0 < shape x ! axis"
  shows "same_array (dct_deinterleave (dct_interleave x axis) axis) x
       \<and> same_array (dct_interleave (dct_deinterleave x axis) axis) x"
  using assms
  by (simp add: same_array_def same_values_iff ndim_def
      shape_dct_interleave shape_dct_deinterleave dtype_dct_interleave dtype_dct_deinterleave
      deinterleave_interleave_item interleave_deinterleave_item)


theorem interleave_deinterleave_inverse_witness:
  "0 < ndim odd_example \<and> 0 < shape odd_example ! 0
   \<and> same_array (dct_deinterleave (dct_interleave odd_example 0) 0) odd_example
   \<and> same_array (dct_interleave (dct_deinterleave odd_example 0) 0) odd_example"
  using interleave_deinterleave_inverse [of 0 odd_example]
  by (simp add: ndim_def odd_example_def)

section \<open>Padding with a constant\<close>

declare dctn.simps [simp del]

lemma pad_length_high: "pad_length n (0, h, 0) = int n + h"
  by (simp add: pad_length_def)

lemma pad_source_high: "pad_source n i (0, h, 0) = (if i < n then Some i else None)"
  by (simp add: pad_source_def)

lemma in_bounds_iff_nth:
  "in_bounds sh idx \<longleftrightarrow> length idx = length sh \<and> (\<forall>a<length sh. idx ! a < sh ! a)"
  by (auto simp: in_bounds_def list_all2_conv_all_nth)

lemma lax_pad_high:
  assumes c: "config = map (\<lambda>a. (0, h a, 0)) [0..<ndim x]"
    and nonneg: "\<forall>a<ndim x. 0 \<le> int (shape x ! a) + h a"
  shows "\<exists>y. lax_pad x v config = Inr y
           \<and> shape y = map (\<lambda>a. nat (int (shape x ! a) + h a)) [0..<ndim x]
           \<and> dtype y = dtype x
           \<and> (\<forall>idx. length idx = ndim x \<longrightarrow>
                 item y idx = (if in_bounds (shape x) idx then item x idx else v))"
proof -
  have lens: "map2 pad_length (shape x) config = map (\<lambda>a. int (shape x ! a) + h a) [0..<ndim x]"
    unfolding c by (rule nth_equalityI) (simp_all add: ndim_def pad_length_high)
  have ok: "\<not> (length config \<noteq> ndim x \<or> (\<exists>c \<in> set config. snd (snd c) < 0)
            \<or> (\<exists>l \<in> set (map2 pad_length (shape x) config). l < 0))"
    unfolding lens using nonneg by (auto simp: c)
  have src: "map2 (\<lambda>(n, i) c. pad_source n i c) (zip (shape x) idx) config
      = map (\<lambda>a. if idx ! a < shape x ! a then Some (idx ! a) else None) [0..<ndim x]"
    if "length idx = ndim x" for idx
    unfolding c using that
    by (intro nth_equalityI) (simp_all add: ndim_def pad_source_high)
  have it: "(if None \<in> set (map2 (\<lambda>(n, i) c. pad_source n i c) (zip (shape x) idx) config)
         then v
         else item x (map the (map2 (\<lambda>(n, i) c. pad_source n i c) (zip (shape x) idx) config)))
      = (if in_bounds (shape x) idx then item x idx else v)"
    if l: "length idx = ndim x" for idx
  proof (cases "in_bounds (shape x) idx")
    case True
    then have a: "\<forall>a<ndim x. idx ! a < shape x ! a"
      by (simp add: in_bounds_iff_nth ndim_def)
    then have "map (\<lambda>a. if idx ! a < shape x ! a then Some (idx ! a) else None) [0..<ndim x]
       = map Some idx"
      using l by (intro nth_equalityI) simp_all
    with True show ?thesis by (simp add: src [OF l] comp_def)
  next
    case False
    then obtain a where "a < ndim x" "\<not> idx ! a < shape x ! a"
      using l by (auto simp: in_bounds_iff_nth ndim_def)
    then have "None \<in> set (map (\<lambda>a. if idx ! a < shape x ! a then Some (idx ! a) else None) [0..<ndim x])"
      by (auto simp: image_iff intro!: bexI [of _ a])
    with False show ?thesis by (simp add: src [OF l])
  qed
  let ?y = "\<lparr>shape = map nat (map2 pad_length (shape x) config), dtype = dtype x,
     item = (\<lambda>idx. if None \<in> set (map2 (\<lambda>(n, i) c. pad_source n i c) (zip (shape x) idx) config)
         then v
         else item x (map the (map2 (\<lambda>(n, i) c. pad_source n i c) (zip (shape x) idx) config)))\<rparr>"
  have eq: "lax_pad x v config = Inr ?y"
    unfolding lax_pad_def Let_def using ok by (simp only: if_False)
  show ?thesis
  proof (intro exI conjI allI impI)
    show "lax_pad x v config = Inr ?y" by (rule eq)
    show "shape ?y = map (\<lambda>a. nat (int (shape x ! a) + h a)) [0..<ndim x]"
      by (simp add: lens comp_def)
    show "dtype ?y = dtype x" by simp
    show "item ?y idx = (if in_bounds (shape x) idx then item x idx else v)"
      if "length idx = ndim x" for idx
      using it [OF that] by simp
  qed
qed

lemma lax_pad_zero:
  assumes c: "config = map (\<lambda>a. (0, 0, 0)) [0..<ndim x]"
  shows "\<exists>y. lax_pad x v config = Inr y \<and> same_array y x"
proof -
  from lax_pad_high [of config "\<lambda>a. 0" x v] c
  obtain y where y: "lax_pad x v config = Inr y"
    "shape y = map (\<lambda>a. nat (int (shape x ! a) + 0)) [0..<ndim x]" "dtype y = dtype x"
    "\<forall>idx. length idx = ndim x \<longrightarrow>
                 item y idx = (if in_bounds (shape x) idx then item x idx else v)"
    by auto
  have "shape y = shape x"
    unfolding y(2) by (rule nth_equalityI) (simp_all add: ndim_def)
  with y show ?thesis
    by (auto simp: same_array_def same_values_iff in_bounds_length ndim_def)
qed

section \<open>Shapes, element types and elements of the primitives\<close>

declare promote_types.simps [simp del]

lemma promote_types_same [simp]: "promote_types d d = d"
  by (simp add: promote_types.simps)

named_theorems array_simps

lemma lax_full_simps [array_simps]:
  "shape (lax_full sh v d) = sh" "dtype (lax_full sh v d) = d" "item (lax_full sh v d) idx = v"
  by (simp_all add: lax_full_def)

lemma jnp_zeros_simps [array_simps]:
  "shape (jnp_zeros sh d) = sh" "dtype (jnp_zeros sh d) = d" "item (jnp_zeros sh d) idx = 0"
  by (simp_all add: jnp_zeros_def lax_full_def)

lemma array_map_simps [array_simps]:
  "shape (array_map f x) = shape x" "dtype (array_map f x) = dtype x"
  "item (array_map f x) idx = f (item x idx)"
  by (simp_all add: array_map_def)

lemma scalar_simps [array_simps]:
  "shape (scalar_mul c x) = shape x" "dtype (scalar_mul c x) = dtype x"
  "item (scalar_mul c x) idx = c * item x idx"
  "shape (mul_scalar x c) = shape x" "dtype (mul_scalar x c) = dtype x"
  "item (mul_scalar x c) idx = item x idx * c"
  "shape (div_scalar y d) = shape y" "dtype (div_scalar y d) = dtype y"
  "item (div_scalar y d) idx = item y idx / d"
  "shape (array_neg z) = shape z" "dtype (array_neg z) = dtype z"
  "item (array_neg z) idx = - item z idx"
  by (simp_all add: scalar_mul_def mul_scalar_def div_scalar_def array_neg_def array_map_def)

lemma map_simps [array_simps]:
  "shape (lax_sqrt r) = shape r" "dtype (lax_sqrt r) = dtype r"
  "item (lax_sqrt r) idx = sqrt (item r idx)"
  "shape (jnp_exp z) = shape z" "dtype (jnp_exp z) = dtype z"
  "item (jnp_exp z) idx = exp (item z idx)"
  by (simp_all add: lax_sqrt_def jnp_exp_def array_map_def)

lemma cast_value_same [simp]:
  "cast_value d (to_complex_dtype d) v = v" "cast_value Float32 d v = v"
  "cast_value Float16 d v = v" "cast_value BFloat16 d v = v" "cast_value Complex64 d v = v"
  by (cases d; simp add: cast_value_def)+

lemma float32_round_0 [simp]: "float32_round 0 = 0"
  by (simp add: float32_round_def)

lemma cast_value_0 [simp]: "cast_value src dst 0 = 0"
  by (simp add: cast_value_def)

lemma astype_simps [array_simps]:
  "shape (astype x d) = shape x" "dtype (astype x d) = d"
  "item (astype x d) idx = cast_value (dtype x) d (item x idx)"
  by (simp_all add: astype_def)

lemma astype_complex_simps [array_simps]:
  "shape (astype_complex x d) = shape x" "dtype (astype_complex x d) = d"
  "item (astype_complex x d) idx
     = Complex (cast_value (dtype x) d (Re (item x idx))) (cast_value (dtype x) d (Im (item x idx)))"
  by (simp_all add: astype_complex_def)

lemma complex_values_simps [array_simps]:
  "shape (complex_values r) = shape r" "dtype (complex_values r) = dtype r"
  "item (complex_values r) idx = complex_of_real (item r idx)"
  by (simp_all add: complex_values_def)

lemma real_part_simps [array_simps]:
  "shape (real_part z) = shape z" "dtype (real_part z) = real_dtype (dtype z)"
  "item (real_part z) idx = Re (item z idx)"
  by (simp_all add: real_part_def)

lemma lax_concatenate_simps [array_simps]:
  "shape (lax_concatenate v0 v1 a) = (shape v0)[a := shape v0 ! a + shape v1 ! a]"
  "dtype (lax_concatenate v0 v1 a) = promote_types (dtype v0) (dtype v1)"
  "item (lax_concatenate v0 v1 a) idx =
     (if idx ! a < shape v0 ! a then item v0 idx else item v1 (idx[a := idx ! a - shape v0 ! a]))"
  by (simp_all add: lax_concatenate_def)

lemma elementwise_simps [array_simps]:
  "shape (elementwise f x y) = broadcast_shapes (shape x) (shape y)"
  "dtype (elementwise f x y) = promote_types (dtype x) (dtype y)"
  "item (elementwise f x y) idx
     = f (item x (broadcast_index (shape x) idx)) (item y (broadcast_index (shape y) idx))"
  by (simp_all add: elementwise_def)

lemma jnp_arange_simps [array_simps]:
  "shape (jnp_arange n d) = [n]" "dtype (jnp_arange n d) = d"
  "item (jnp_arange n d) idx = of_nat (idx ! 0)"
  by (simp_all add: jnp_arange_def)

lemma fft_simps [array_simps]:
  "shape (jnp_fft_fft v a) = shape v" "dtype (jnp_fft_fft v a) = to_complex_dtype (dtype v)"
  "shape (jnp_fft_ifft v a) = shape v" "dtype (jnp_fft_ifft v a) = to_complex_dtype (dtype v)"
  by (simp_all add: jnp_fft_fft_def jnp_fft_ifft_def)

lemma lax_rev_simps [array_simps]:
  "shape (lax_rev x ds) = shape x" "dtype (lax_rev x ds) = dtype x"
  "item (lax_rev x [a]) idx = item x (idx[a := shape x ! a - 1 - idx ! a])"
  "shape (jnp_flip x a) = shape x" "dtype (jnp_flip x a) = dtype x"
  "item (jnp_flip x a) idx = item x (idx[a := shape x ! a - 1 - idx ! a])"
  by (simp_all add: lax_rev_def jnp_flip_def)

lemma jnp_roll_simps [array_simps]:
  "shape (jnp_roll x sh a) = shape x" "dtype (jnp_roll x sh a) = dtype x"
  "item (jnp_roll x sh a) idx
     = item x (idx[a := nat ((int (idx ! a) - sh) mod int (shape x ! a))])"
  by (simp_all add: jnp_roll_def)

lemma lax_expand_dims_dtype [array_simps]: "dtype (lax_expand_dims k ds) = dtype k"
  by (simp add: lax_expand_dims_def Let_def)

lemma ndim_simps [array_simps]:
  "ndim (array_map f x) = ndim x" "ndim (astype x d) = ndim x"
  "ndim (astype_complex z d) = ndim z"
  "ndim (complex_values r) = ndim r" "ndim (real_part z) = ndim z"
  "ndim (scalar_mul c x) = ndim x" "ndim (mul_scalar x c) = ndim x"
  "ndim (jnp_fft_fft v a) = ndim v" "ndim (jnp_fft_ifft v a) = ndim v"
  "ndim (lax_concatenate v0 v1 a) = ndim v0"
  by (simp_all add: ndim_def array_simps)

lemma broadcast_shapes_length:
  "length (broadcast_shapes s t) = min (length s) (length t)"
  by (simp add: broadcast_shapes_def)


lemma kept_axis:
  assumes "a < n"
  shows "[b \<leftarrow> [0..<n]. b \<notin> set [c \<leftarrow> [0..<n]. c \<noteq> a]] = [a]"
proof -
  have "[b \<leftarrow> [0..<n]. b \<notin> set [c \<leftarrow> [0..<n]. c \<noteq> a]] = [b \<leftarrow> [0..<n]. b = a]"
    by (rule filter_cong) auto
  also have "\<dots> = [a]"
    using assms by (induction n) auto
  finally show ?thesis .
qed

lemma others_length:
  assumes "a < n"
  shows "length (remdups [c \<leftarrow> [0..<n]. c \<noteq> a]) = n - 1"
proof -
  have "length [c \<leftarrow> [0..<n]. c \<noteq> a] + length [c \<leftarrow> [0..<n]. \<not> c \<noteq> a] = n"
    using sum_length_filter_compl [of "\<lambda>c. c \<noteq> a" "[0..<n]"] by simp
  moreover have "[c \<leftarrow> [0..<n]. \<not> c \<noteq> a] = [a]"
    using assms by (induction n) auto
  ultimately have "length [c \<leftarrow> [0..<n]. c \<noteq> a] = n - 1" by simp
  then show ?thesis by (simp add: distinct_remdups_id)
qed

definition axis_shape :: "nat \<Rightarrow> nat \<Rightarrow> nat \<Rightarrow> nat list" where
  "axis_shape n a N = (replicate n 1)[a := N]"

lemma shape_expand_axis:
  assumes "a < n" "shape k = [N]"
  shows "shape (lax_expand_dims k [c \<leftarrow> [0..<n]. c \<noteq> a]) = axis_shape n a N"
proof -
  have r: "ndim k + length (remdups [c \<leftarrow> [0..<n]. c \<noteq> a]) = n"
    using assms by (simp add: ndim_def others_length)
  have "map (\<lambda>b. if b \<in> set [c \<leftarrow> [0..<n]. c \<noteq> a] then 1
                            else shape k ! length [c \<leftarrow> [0..<b]. c \<notin> set [c \<leftarrow> [0..<n]. c \<noteq> a]]) [0..<n]
      = axis_shape n a N"
  proof (rule nth_equalityI)
    show "length (map (\<lambda>b. if b \<in> set [c \<leftarrow> [0..<n]. c \<noteq> a] then 1
                            else shape k ! length [c \<leftarrow> [0..<b]. c \<notin> set [c \<leftarrow> [0..<n]. c \<noteq> a]]) [0..<n])
       = length (axis_shape n a N)" by (simp add: axis_shape_def)
  next
    fix i assume "i < length (map (\<lambda>b. if b \<in> set [c \<leftarrow> [0..<n]. c \<noteq> a] then 1
                            else shape k ! length [c \<leftarrow> [0..<b]. c \<notin> set [c \<leftarrow> [0..<n]. c \<noteq> a]]) [0..<n])"
    then have i: "i < n" by simp
    have "[c \<leftarrow> [0..<a]. c \<notin> set [c \<leftarrow> [0..<n]. c \<noteq> a]] = []"
      using assms(1) by (auto simp: filter_empty_conv)
    with i assms show "map (\<lambda>b. if b \<in> set [c \<leftarrow> [0..<n]. c \<noteq> a] then 1
                            else shape k ! length [c \<leftarrow> [0..<b]. c \<notin> set [c \<leftarrow> [0..<n]. c \<noteq> a]]) [0..<n] ! i
       = axis_shape n a N ! i"
      by (auto simp: axis_shape_def nth_list_update)
  qed
  then show ?thesis
    unfolding lax_expand_dims_def Let_def r by simp
qed

lemma item_expand_axis:
  assumes "a < n" "shape k = [N]"
  shows "item (lax_expand_dims k [c \<leftarrow> [0..<n]. c \<noteq> a]) idx = item k [idx ! a]"
proof -
  have r: "ndim k + length (remdups [c \<leftarrow> [0..<n]. c \<noteq> a]) = n"
    using assms by (simp add: ndim_def others_length)
  show ?thesis
    unfolding lax_expand_dims_def Let_def r kept_axis [OF assms(1)] by simp
qed

lemma broadcast_shapes_axis:
  assumes "a < length sh"
  shows "broadcast_shapes sh (axis_shape (length sh) a (sh ! a)) = sh"
  unfolding broadcast_shapes_def axis_shape_def
  using assms by (intro nth_equalityI) (auto simp: nth_list_update)

lemma broadcast_shapes_axis2:
  assumes "a < length sh"
  shows "broadcast_shapes (axis_shape (length sh) a (sh ! a)) sh = sh"
  unfolding broadcast_shapes_def axis_shape_def
  using assms by (intro nth_equalityI) (auto simp: nth_list_update)

lemma broadcast_index_self:
  assumes "in_bounds sh idx"
  shows "broadcast_index sh idx = idx"
proof (rule nth_equalityI)
  show "length (broadcast_index sh idx) = length idx"
    using assms by (simp add: broadcast_index_def in_bounds_length)
next
  fix i assume "i < length (broadcast_index sh idx)"
  then have i: "i < length sh" "i < length idx" by (simp_all add: broadcast_index_def)
  with assms have "idx ! i < sh ! i" by (simp add: in_bounds_nth)
  with i show "broadcast_index sh idx ! i = idx ! i"
    by (simp add: broadcast_index_def)
qed

lemma broadcast_index_axis:
  assumes "in_bounds sh idx" "a < length sh"
  shows "broadcast_index (axis_shape (length sh) a (sh ! a)) idx ! a = idx ! a"
proof -
  have "idx ! a < sh ! a" using assms by (rule in_bounds_nth)
  moreover have "length idx = length sh" using assms(1) by (rule in_bounds_length)
  ultimately show ?thesis
    using assms(2) by (simp add: broadcast_index_def axis_shape_def)
qed

section \<open>Twiddle factors and the orthonormal scaling\<close>

lemma W4_shape: "shape (W4 N k) = shape k"
  by (simp add: W4_def promote_dtypes_complex_def array_simps)

lemma W4_dtype: "dtype (W4 N k) = to_complex_dtype (dtype k)"
  by (simp add: W4_def promote_dtypes_complex_def array_simps)

lemma W4_item:
  "item (W4 N k) idx = exp (- 0.5 * \<i> * complex_of_real pi * item k idx / of_nat N)"
  by (simp add: W4_def promote_dtypes_complex_def array_simps)

lemma twiddle_cis:
  "exp (- 0.5 * \<i> * complex_of_real pi * of_nat k / of_nat N)
     = cis (- (pi * real k / (2 * real N)))"
proof -
  have "- 0.5 * \<i> * complex_of_real pi * of_nat k / of_nat N
      = \<i> * complex_of_real (- (pi * real k / (2 * real N)))"
    by (simp add: field_simps)
  then show ?thesis by (simp only: cis_conv_exp)
qed

lemma twiddle_cis_neg:
  "exp (- 0.5 * \<i> * complex_of_real pi * (- of_nat k) / of_nat N)
     = cis (pi * real k / (2 * real N))"
proof -
  have "- 0.5 * \<i> * complex_of_real pi * (- of_nat k) / of_nat N
      = \<i> * complex_of_real (pi * real k / (2 * real N))"
    by (simp add: field_simps)
  then show ?thesis by (simp only: cis_conv_exp)
qed

text \<open>The index array of an axis: arange, expanded to the rank of the working array.\<close>

lemma index_array_shape:
  assumes "a < n"
  shows "shape (lax_expand_dims (jnp_arange N d) [c \<leftarrow> [0..<n]. c \<noteq> a]) = axis_shape n a N"
  using assms by (simp add: shape_expand_axis array_simps)

lemma index_array_item:
  assumes "a < n"
  shows "item (lax_expand_dims (jnp_arange N d) [c \<leftarrow> [0..<n]. c \<noteq> a]) idx
         = (of_nat (idx ! a) :: 'a::semiring_1)"
  using item_expand_axis [OF assms, of "jnp_arange N d" N idx]
  by (simp add: array_simps)

lemma elementwise_axis_shape:
  assumes "a < length (shape V)" "shape W = axis_shape (length (shape V)) a (shape V ! a)"
  shows "shape (elementwise f V W) = shape V"
  using assms by (simp add: array_simps broadcast_shapes_axis)

lemma elementwise_axis_shape2:
  assumes "a < length (shape V)" "shape W = axis_shape (length (shape V)) a (shape V ! a)"
  shows "shape (elementwise f W V) = shape V"
  using assms by (simp add: array_simps broadcast_shapes_axis2)

lemma elementwise_same_shape_item:
  assumes "in_bounds (shape V) idx" "shape W = shape V"
  shows "item (elementwise f V W) idx = f (item V idx) (item W idx)"
  using assms by (simp add: array_simps broadcast_index_self)

lemma twiddle_mul:
  assumes "in_bounds (shape V) idx" "a < length (shape V)"
  shows "item (array_mul V (W4 (shape V ! a)
            (lax_expand_dims (jnp_arange (shape V ! a) d) [c \<leftarrow> [0..<length (shape V)]. c \<noteq> a]))) idx
         = item V idx * cis (- (pi * real (idx ! a) / (2 * real (shape V ! a))))"
proof -
  let ?k = "lax_expand_dims (jnp_arange (shape V ! a) d) [c \<leftarrow> [0..<length (shape V)]. c \<noteq> a]"
  have s: "shape (W4 (shape V ! a) ?k) = axis_shape (length (shape V)) a (shape V ! a)"
    using assms(2) by (simp add: W4_shape index_array_shape)
  have "item (W4 (shape V ! a) ?k) (broadcast_index (axis_shape (length (shape V)) a (shape V ! a)) idx)
      = cis (- (pi * real (idx ! a) / (2 * real (shape V ! a))))"
    unfolding W4_item index_array_item [OF assms(2)] broadcast_index_axis [OF assms] twiddle_cis ..
  then show ?thesis
    using assms by (simp add: array_mul_def array_simps s broadcast_index_self)
qed

lemma twiddle_div:
  assumes "in_bounds (shape V) idx" "a < length (shape V)"
  shows "item (array_div V (W4 (shape V ! a)
            (lax_expand_dims (jnp_arange (shape V ! a) d) [c \<leftarrow> [0..<length (shape V)]. c \<noteq> a]))) idx
         = item V idx / cis (- (pi * real (idx ! a) / (2 * real (shape V ! a))))"
proof -
  let ?k = "lax_expand_dims (jnp_arange (shape V ! a) d) [c \<leftarrow> [0..<length (shape V)]. c \<noteq> a]"
  have s: "shape (W4 (shape V ! a) ?k) = axis_shape (length (shape V)) a (shape V ! a)"
    using assms(2) by (simp add: W4_shape index_array_shape)
  have "item (W4 (shape V ! a) ?k) (broadcast_index (axis_shape (length (shape V)) a (shape V ! a)) idx)
      = cis (- (pi * real (idx ! a) / (2 * real (shape V ! a))))"
    unfolding W4_item index_array_item [OF assms(2)] broadcast_index_axis [OF assms] twiddle_cis ..
  then show ?thesis
    using assms by (simp add: array_div_def array_simps s broadcast_index_self)
qed

lemma twiddle_shape:
  assumes "a < length (shape V)"
  shows "shape (elementwise f V (W4 (shape V ! a)
            (lax_expand_dims (jnp_arange (shape V ! a) d) [c \<leftarrow> [0..<length (shape V)]. c \<noteq> a])))
         = shape V"
  using assms by (simp add: elementwise_axis_shape W4_shape index_array_shape)

lemma twiddle_dtype:
  "dtype (elementwise f V (W4 N (lax_expand_dims (jnp_arange N d) ds)))
         = promote_types (dtype V) (to_complex_dtype d)"
  by (simp add: array_simps W4_dtype)

text \<open>The orthonormal scaling.\<close>

lemma ortho_factor_shape:
  assumes "a < ndim out" "0 < shape out ! a"
  shows "shape (lax_sqrt (mul_scalar (lax_expand_dims
            (lax_concatenate (lax_full [1] 4 d) (lax_full [shape out ! a - 1] 2 d) 0)
            [c \<leftarrow> [0..<ndim out]. c \<noteq> a]) r))
         = axis_shape (length (shape out)) a (shape out ! a)"
proof -
  have "shape (lax_concatenate (lax_full [1] (4::real) d) (lax_full [shape out ! a - 1] 2 d) 0)
      = [shape out ! a]"
    using assms(2) by (simp add: array_simps)
  from shape_expand_axis [OF assms(1) this] show ?thesis
    by (simp add: array_simps ndim_def)
qed

lemma ortho_factor_item:
  assumes "a < ndim out"
  shows "item (lax_sqrt (mul_scalar (lax_expand_dims
            (lax_concatenate (lax_full [1] 4 d) (lax_full [shape out ! a - 1] 2 d) 0)
            [c \<leftarrow> [0..<ndim out]. c \<noteq> a]) r)) idx
         = sqrt ((if idx ! a = 0 then 4 else 2) * r)"
proof -
  have "shape (lax_concatenate (lax_full [1] (4::real) d) (lax_full [shape out ! a - 1] 2 d) 0)
      = [1 + (shape out ! a - 1)]"
    by (simp add: array_simps)
  from item_expand_axis [OF assms(1) this] show ?thesis
    by (simp add: array_simps)
qed

definition ortho_scale :: "nat \<Rightarrow> nat \<Rightarrow> real" where
  "ortho_scale N k = sqrt ((if k = 0 then 4 else 2) * real N)"

lemma dct_ortho_norm_shape:
  assumes "a < ndim out" "0 < shape out ! a"
  shows "shape (dct_ortho_norm out a) = shape out"
  unfolding dct_ortho_norm_def Let_def array_div_def
  using assms ortho_factor_shape [OF assms]
  by (simp add: elementwise_axis_shape ndim_def)

lemma expand_dims_ndim: "ndim (lax_expand_dims k ds) = ndim k + length (remdups ds)"
  by (simp add: lax_expand_dims_def Let_def ndim_def)

lemma dct_ortho_norm_ndim:
  assumes "a < ndim out"
  shows "ndim (dct_ortho_norm out a) = ndim out"
proof -
  let ?c = "lax_concatenate (lax_full [1] (4::real) (dtype out))
              (lax_full [shape out ! a - 1] 2 (dtype out)) 0"
  have "ndim ?c = 1" by (simp add: ndim_def array_simps)
  then have "ndim (lax_expand_dims ?c [c \<leftarrow> [0..<ndim out]. c \<noteq> a]) = ndim out"
    using assms by (simp add: expand_dims_ndim others_length)
  then show ?thesis
    unfolding dct_ortho_norm_def Let_def array_div_def
    by (simp add: ndim_def array_simps broadcast_shapes_length)
qed

lemma dct_ortho_norm_dtype: "dtype (dct_ortho_norm out a) = dtype out"
  unfolding dct_ortho_norm_def Let_def array_div_def
  by (simp add: array_simps)

lemma dct_ortho_norm_item:
  assumes "in_bounds (shape out) idx" "a < ndim out" "0 < shape out ! a"
  shows "item (dct_ortho_norm out a) idx = item out idx / ortho_scale (shape out ! a) (idx ! a)"
proof -
  let ?f = "lax_sqrt (mul_scalar (lax_expand_dims
            (lax_concatenate (lax_full [1] 4 (dtype out)) (lax_full [shape out ! a - 1] 2 (dtype out)) 0)
            [c \<leftarrow> [0..<ndim out]. c \<noteq> a]) (real (shape out ! a)))"
  have a: "a < length (shape out)" using assms(2) by (simp add: ndim_def)
  have s: "shape ?f = axis_shape (length (shape out)) a (shape out ! a)"
    by (rule ortho_factor_shape [OF assms(2,3)])
  have "item ?f (broadcast_index (shape ?f) idx)
      = sqrt ((if broadcast_index (shape ?f) idx ! a = 0 then 4 else 2) * real (shape out ! a))"
    by (rule ortho_factor_item [OF assms(2)])
  also have "broadcast_index (shape ?f) idx ! a = idx ! a"
    unfolding s by (rule broadcast_index_axis [OF assms(1) a])
  finally have f: "item ?f (broadcast_index (shape ?f) idx) = ortho_scale (shape out ! a) (idx ! a)"
    by (simp add: ortho_scale_def)
  show ?thesis
    unfolding dct_ortho_norm_def Let_def array_div_def
    using f assms(1) by (simp add: array_simps broadcast_index_self)
qed

section \<open>Orthogonality of the DCT-II cosines\<close>






definition dct_angle :: "nat \<Rightarrow> nat \<Rightarrow> nat \<Rightarrow> real" where
  "dct_angle N k m = pi * real k * real (4 * m + 1) / (2 * real N)"




section \<open>The forward transform along one axis\<close>

definition dct_unnormalized :: "real array \<Rightarrow> nat \<Rightarrow> dtype \<Rightarrow> real array" where
  "dct_unnormalized x a d =
     scalar_mul 2 (real_part (array_mul (jnp_fft_fft (complex_values (dct_interleave x a)) a)
        (W4 (shape x ! a)
           (lax_expand_dims (jnp_arange (shape x ! a) d) [c \<leftarrow> [0..<ndim x]. c \<noteq> a]))))"

definition dct_kernel :: "real array \<Rightarrow> nat \<Rightarrow> string option \<Rightarrow> real array" where
  "dct_kernel x a nrm =
     (let out = dct_unnormalized x a (real_dtype (to_complex_dtype (dtype x)))
      in if nrm = Some ''ortho'' then dct_ortho_norm out a else out)"

lemma dct_unfold:
  "dct x type n axis nrm =
     (if type \<noteq> 2 then Inl NotImplementedError
      else case canonicalize_axis axis (ndim x) of Inl e \<Rightarrow> Inl e | Inr axis \<Rightarrow>
        (case pad_axis x n axis of Inl e \<Rightarrow> Inl e | Inr x \<Rightarrow> Inr (dct_kernel x axis nrm)))"
  by (simp add: dct_def dct_kernel_def dct_unnormalized_def Let_def array_simps
      dtype_dct_interleave split: sum.splits)

lemma to_complex_real_dtype [simp]:
  "to_complex_dtype (real_dtype (to_complex_dtype d)) = to_complex_dtype d"
  by (cases d) simp_all

lemma to_complex_idem [simp]:
  "to_complex_dtype (to_complex_dtype d) = to_complex_dtype d"
  by (cases d) simp_all

lemma dct_unnormalized_shape:
  assumes "a < ndim x"
  shows "shape (dct_unnormalized x a d) = shape x"
proof -
  let ?V = "jnp_fft_fft (complex_values (dct_interleave x a)) a"
  have s: "shape ?V = shape x" by (simp add: array_simps shape_dct_interleave)
  have a: "a < length (shape ?V)" using assms by (simp add: s ndim_def)
  show ?thesis
    using twiddle_shape [OF a, of "(*)" d]
    unfolding dct_unnormalized_def array_mul_def s ndim_def
    by (simp add: array_simps)
qed

lemma dct_unnormalized_dtype:
  "dtype (dct_unnormalized x a d)
     = real_dtype (promote_types (to_complex_dtype (dtype x)) (to_complex_dtype d))"
  by (simp add: dct_unnormalized_def array_simps array_mul_def W4_dtype dtype_dct_interleave)

lemma dct_kernel_shape:
  assumes "a < ndim x" "0 < shape x ! a"
  shows "shape (dct_kernel x a nrm) = shape x"
  using assms
  by (simp add: dct_kernel_def Let_def dct_ortho_norm_shape dct_unnormalized_shape ndim_def)

lemma dct_kernel_ndim:
  assumes "a < ndim x"
  shows "ndim (dct_kernel x a nrm) = ndim x"
proof -
  have "ndim (dct_unnormalized x a d) = ndim x" for d
    using assms by (simp add: ndim_def dct_unnormalized_shape)
  with assms show ?thesis
    by (simp add: dct_kernel_def Let_def dct_ortho_norm_ndim)
qed

lemma dct_kernel_dtype:
  "dtype (dct_kernel x a nrm) = real_dtype (to_complex_dtype (dtype x))"
  by (simp add: dct_kernel_def Let_def dct_ortho_norm_dtype dct_unnormalized_dtype)

lemma dct_unnormalized_item:
  assumes "in_bounds (shape x) idx" "a < ndim x" "0 < shape x ! a"
  shows "item (dct_unnormalized x a d) idx
         = 2 * (\<Sum>m<shape x ! a. item x (idx[a := interleave_index (shape x ! a) m])
                  * cos (dct_angle (shape x ! a) (idx ! a) m))"
proof -
  let ?N = "shape x ! a"
  let ?k = "idx ! a"
  let ?v = "dct_interleave x a"
  let ?V = "jnp_fft_fft (complex_values ?v) a"
  have a: "a < length (shape x)" using assms(2) by (simp add: ndim_def)
  have s: "shape ?V = shape x" by (simp add: array_simps shape_dct_interleave)
  have l: "a < length idx" using assms(1) a by (simp add: in_bounds_length)
  have V: "item ?V idx = (\<Sum>m<?N. complex_of_real (item ?v (idx[a := m]))
                * cis (- (2 * pi * real ?k * real m / real ?N)))"
    by (simp add: jnp_fft_fft_def array_simps shape_dct_interleave)
  have v: "item ?v (idx[a := m]) = item x (idx[a := interleave_index ?N m])" if "m < ?N" for m
  proof -
    have "in_bounds (shape x) (idx[a := m])"
      using assms(1) a that by (rule in_bounds_update_same)
    from item_dct_interleave [OF this a] l show ?thesis by simp
  qed
  have "item (array_mul ?V (W4 (shape ?V ! a)
            (lax_expand_dims (jnp_arange (shape ?V ! a) d) [c \<leftarrow> [0..<length (shape ?V)]. c \<noteq> a]))) idx
         = item ?V idx * cis (- (pi * real (idx ! a) / (2 * real (shape ?V ! a))))"
    using assms(1) a by (intro twiddle_mul) (simp_all add: s)
  then have "item (array_mul ?V (W4 ?N
            (lax_expand_dims (jnp_arange ?N d) [c \<leftarrow> [0..<ndim x]. c \<noteq> a]))) idx
         = (\<Sum>m<?N. complex_of_real (item ?v (idx[a := m]))
                * cis (- (2 * pi * real ?k * real m / real ?N)))
           * cis (- (pi * real ?k / (2 * real ?N)))"
    by (simp add: s ndim_def V)
  also have "\<dots> = (\<Sum>m<?N. complex_of_real (item ?v (idx[a := m]))
                * cis (- dct_angle ?N ?k m))"
    unfolding sum_distrib_right
  proof (rule sum.cong [OF refl])
    fix m
    have "- (2 * pi * real ?k * real m / real ?N) + - (pi * real ?k / (2 * real ?N))
        = - dct_angle ?N ?k m"
      using assms(3) by (simp add: dct_angle_def field_simps)
    then show "complex_of_real (item ?v (idx[a := m]))
                * cis (- (2 * pi * real ?k * real m / real ?N)) * cis (- (pi * real ?k / (2 * real ?N)))
        = complex_of_real (item ?v (idx[a := m])) * cis (- dct_angle ?N ?k m)"
      by (simp only: mult.assoc cis_mult)
  qed
  finally have "Re (item (array_mul ?V (W4 ?N
            (lax_expand_dims (jnp_arange ?N d) [c \<leftarrow> [0..<ndim x]. c \<noteq> a]))) idx)
      = (\<Sum>m<?N. item ?v (idx[a := m]) * cos (dct_angle ?N ?k m))"
    by simp
  also have "\<dots> = (\<Sum>m<?N. item x (idx[a := interleave_index ?N m]) * cos (dct_angle ?N ?k m))"
    by (rule sum.cong [OF refl]) (simp add: v)
  finally show ?thesis
    by (simp add: dct_unnormalized_def array_simps)
qed

lemma dct_kernel_item:
  assumes "in_bounds (shape x) idx" "a < ndim x" "0 < shape x ! a"
  shows "item (dct_kernel x a nrm) idx
         = 2 * (\<Sum>m<shape x ! a. item x (idx[a := interleave_index (shape x ! a) m])
                  * cos (dct_angle (shape x ! a) (idx ! a) m))
           / (if nrm = Some ''ortho'' then ortho_scale (shape x ! a) (idx ! a) else 1)"
proof (cases "nrm = Some ''ortho''")
  case False
  then show ?thesis
    using dct_unnormalized_item [OF assms] by (simp add: dct_kernel_def Let_def)
next
  case True
  let ?out = "dct_unnormalized x a (real_dtype (to_complex_dtype (dtype x)))"
  have s: "shape ?out = shape x" by (rule dct_unnormalized_shape [OF assms(2)])
  have "item (dct_ortho_norm ?out a) idx = item ?out idx / ortho_scale (shape ?out ! a) (idx ! a)"
    using assms by (intro dct_ortho_norm_item) (simp_all add: s ndim_def)
  with True show ?thesis
    using dct_unnormalized_item [OF assms] by (simp add: dct_kernel_def Let_def s)
qed

section \<open>The inverse transform along one axis\<close>

definition idct_scaled :: "nat \<Rightarrow> real array \<Rightarrow> nat \<Rightarrow> real array" where
  "idct_scaled p x a = ((\<lambda>y. dct_ortho_norm y a) ^^ p) (astype x Float32)"

definition idct_spectrum :: "real array \<Rightarrow> nat \<Rightarrow> nat \<Rightarrow> complex array" where
  "idct_spectrum x N a =
     mul_scalar (mul_scalar
       (array_div (astype_complex (complex_values x) Complex64)
          (W4 N (lax_expand_dims (jnp_arange N Float32) [c \<leftarrow> [0..<ndim x]. c \<noteq> a])))
       2) (of_nat N)"

definition idct_kernel :: "nat \<Rightarrow> real array \<Rightarrow> nat \<Rightarrow> real array" where
  "idct_kernel p x a =
     dct_deinterleave
       (real_part (jnp_fft_ifft (idct_spectrum (idct_scaled p x a) (shape x ! a) a) a)) a"

definition norm_passes :: "string option \<Rightarrow> nat" where
  "norm_passes nrm = (if nrm = None then 2 else 1)"

lemma idct_scaled_Suc: "idct_scaled (Suc p) x a = dct_ortho_norm (idct_scaled p x a) a"
  by (simp add: idct_scaled_def)

lemma idct_scaled_0: "idct_scaled 0 x a = astype x Float32"
  by (simp add: idct_scaled_def)

lemma idct_scaled_ndim: "a < ndim x \<Longrightarrow> ndim (idct_scaled p x a) = ndim x"
  by (induction p) (simp_all add: idct_scaled_Suc idct_scaled_0 dct_ortho_norm_ndim array_simps)

lemma idct_scaled_shape:
  assumes "a < ndim x" "0 < shape x ! a"
  shows "shape (idct_scaled p x a) = shape x"
  using assms
  by (induction p)
     (simp_all add: idct_scaled_Suc idct_scaled_0 dct_ortho_norm_shape array_simps ndim_def)

lemma idct_scaled_dtype: "dtype (idct_scaled p x a) = Float32"
  by (induction p) (simp_all add: idct_scaled_Suc idct_scaled_0 dct_ortho_norm_dtype array_simps)

lemma idct_scaled_item:
  assumes "in_bounds (shape x) idx" "a < ndim x" "0 < shape x ! a"
  shows "item (idct_scaled p x a) idx
     = cast_value (dtype x) Float32 (item x idx) / ortho_scale (shape x ! a) (idx ! a) ^ p"
proof (induction p)
  case 0
  show ?case by (simp add: idct_scaled_0 array_simps)
next
  case (Suc p)
  have s: "shape (idct_scaled p x a) = shape x" using assms(2,3) by (rule idct_scaled_shape)
  have "item (dct_ortho_norm (idct_scaled p x a) a) idx
      = item (idct_scaled p x a) idx / ortho_scale (shape (idct_scaled p x a) ! a) (idx ! a)"
    using assms by (intro dct_ortho_norm_item) (simp_all add: s ndim_def)
  then show ?case by (simp add: idct_scaled_Suc Suc s)
qed

lemma idct_unfold:
  "idct x type n axis nrm =
     (if type \<noteq> 2 then Inl NotImplementedError
      else case canonicalize_axis axis (ndim x) of Inl e \<Rightarrow> Inl e | Inr axis \<Rightarrow>
        (case pad_axis x n axis of Inl e \<Rightarrow> Inl e
         | Inr x \<Rightarrow> Inr (idct_kernel (norm_passes nrm) x axis)))"
  by (simp add: idct_def idct_kernel_def idct_spectrum_def idct_scaled_def Let_def W4_dtype
      norm_passes_def numeral_2_eq_2 array_simps split: sum.splits)

lemma idct_kernel_dtype: "dtype (idct_kernel p x a) = Float32"
  by (simp add: idct_kernel_def idct_spectrum_def dtype_dct_deinterleave array_simps array_div_def
      W4_dtype)

lemma idct_spectrum_shape:
  assumes "a < ndim x"
  shows "shape (idct_spectrum x (shape x ! a) a) = shape x"
proof -
  let ?V = "astype_complex (complex_values x) Complex64"
  have s: "shape ?V = shape x" by (simp add: array_simps)
  have a: "a < length (shape ?V)" using assms by (simp add: s ndim_def)
  show ?thesis
    using twiddle_shape [OF a, of "(/)" Float32]
    unfolding idct_spectrum_def array_div_def s ndim_def
    by (simp add: array_simps)
qed

lemma idct_spectrum_item:
  assumes "in_bounds (shape x) idx" "a < ndim x" "dtype x = Float32"
  shows "item (idct_spectrum x (shape x ! a) a) idx
     = complex_of_real (item x idx) / cis (- (pi * real (idx ! a) / (2 * real (shape x ! a))))
         * 2 * of_nat (shape x ! a)"
proof -
  let ?V = "astype_complex (complex_values x) Complex64"
  have s: "shape ?V = shape x" by (simp add: array_simps)
  have a: "a < length (shape ?V)" using assms by (simp add: s ndim_def)
  have b: "in_bounds (shape ?V) idx" using assms by (simp add: s)
  show ?thesis
    using twiddle_div [OF b a, of Float32]
    unfolding idct_spectrum_def s ndim_def
    by (simp add: array_simps assms(3) complex_of_real_def)
qed

lemma idct_kernel_shape:
  assumes "a < ndim x" "0 < shape x ! a"
  shows "shape (idct_kernel p x a) = shape x"
proof -
  have "shape (idct_spectrum (idct_scaled p x a) (shape (idct_scaled p x a) ! a) a)
      = shape (idct_scaled p x a)"
    using assms by (intro idct_spectrum_shape) (simp add: idct_scaled_ndim)
  then show ?thesis
    using assms
    by (simp add: idct_kernel_def shape_dct_deinterleave array_simps idct_scaled_shape)
qed

lemma div_cis_neg: "z / cis (- b) = z * cis b"
  by (simp add: divide_inverse)

lemma idct_kernel_item:
  assumes "in_bounds (shape x) idx" "a < ndim x" "0 < shape x ! a"
  shows "item (idct_kernel p x a) idx
     = (\<Sum>k<shape x ! a.
          2 * (cast_value (dtype x) Float32 (item x (idx[a := k])) / ortho_scale (shape x ! a) k ^ p)
          * cos (dct_angle (shape x ! a) k (deinterleave_index (shape x ! a) (idx ! a))))"
proof -
  let ?N = "shape x ! a"
  let ?n = "deinterleave_index ?N (idx ! a)"
  let ?c = "cast_value (dtype x) Float32"
  let ?xs = "idct_scaled p x a"
  let ?S = "idct_spectrum ?xs ?N a"
  let ?X = "jnp_fft_ifft ?S a"
  have a: "a < length (shape x)" using assms(2) by (simp add: ndim_def)
  have l: "a < length idx" using assms(1) a by (simp add: in_bounds_length)
  have k: "idx ! a < ?N" using assms(1) a by (rule in_bounds_nth)
  have xs: "shape ?xs = shape x" using assms(2,3) by (rule idct_scaled_shape)
  have S: "shape ?S = shape x"
    using idct_spectrum_shape [of a ?xs] assms(2) by (simp add: xs idct_scaled_ndim)
  have d: "item (idct_kernel p x a) idx = Re (item ?X (idx[a := ?n]))"
    using item_dct_deinterleave [of "real_part ?X" idx a] assms(1) a
    by (simp add: idct_kernel_def array_simps S)
  have summand: "item ?S (idx[a := m]) * cis (2 * pi * real ?n * real m / real ?N)
      = complex_of_real (2 * (?c (item x (idx[a := m])) / ortho_scale ?N m ^ p) * real ?N)
        * cis (dct_angle ?N m ?n)" if m: "m < ?N" for m
  proof -
    have b: "in_bounds (shape x) (idx[a := m])"
      using assms(1) a m by (rule in_bounds_update_same)
    have "item ?S (idx[a := m])
        = complex_of_real (item ?xs (idx[a := m])) / cis (- (pi * real m / (2 * real ?N)))
           * 2 * of_nat ?N"
      using idct_spectrum_item [of ?xs "idx[a := m]" a] b assms(2) l
      by (simp add: xs idct_scaled_ndim idct_scaled_dtype)
    also have "\<dots> = complex_of_real (item ?xs (idx[a := m])) * cis (pi * real m / (2 * real ?N))
           * 2 * of_nat ?N"
      by (simp only: div_cis_neg)
    also have "item ?xs (idx[a := m]) = ?c (item x (idx[a := m])) / ortho_scale ?N m ^ p"
      using idct_scaled_item [OF b assms(2,3), of p] l by simp
    finally have "item ?S (idx[a := m]) * cis (2 * pi * real ?n * real m / real ?N)
        = complex_of_real (2 * (?c (item x (idx[a := m])) / ortho_scale ?N m ^ p) * real ?N)
          * cis (pi * real m / (2 * real ?N) + 2 * pi * real ?n * real m / real ?N)"
      by (simp add: cis_mult [symmetric])
    also have "pi * real m / (2 * real ?N) + 2 * pi * real ?n * real m / real ?N
        = dct_angle ?N m ?n"
      using assms(3) by (simp add: dct_angle_def field_simps)
    finally show ?thesis .
  qed
  have sums: "(\<Sum>m<?N. item ?S (idx[a := m]) * cis (2 * pi * real ?n * real m / real ?N))
      = (\<Sum>m<?N. complex_of_real (2 * (?c (item x (idx[a := m])) / ortho_scale ?N m ^ p) * real ?N)
        * cis (dct_angle ?N m ?n))"
    by (rule sum.cong [OF refl]) (simp add: summand)
  have "item ?X (idx[a := ?n])
      = (\<Sum>m<?N. item ?S (idx[a := m]) * cis (2 * pi * real ?n * real m / real ?N)) / of_nat ?N"
    using l by (simp add: jnp_fft_ifft_def S)
  also have "\<dots> = (\<Sum>m<?N. complex_of_real (2 * (?c (item x (idx[a := m])) / ortho_scale ?N m ^ p) * real ?N)
        * cis (dct_angle ?N m ?n)) / of_nat ?N"
    by (simp only: sums)
  finally have "Re (item ?X (idx[a := ?n]))
      = (\<Sum>m<?N. 2 * (?c (item x (idx[a := m])) / ortho_scale ?N m ^ p) * real ?N
            * cos (dct_angle ?N m ?n)) / real ?N"
    by simp
  also have "\<dots> = (\<Sum>m<?N. 2 * (?c (item x (idx[a := m])) / ortho_scale ?N m ^ p)
            * cos (dct_angle ?N m ?n))"
    unfolding sum_divide_distrib
    by (rule sum.cong [OF refl]) (use assms(3) in simp)
  finally show ?thesis using d by simp
qed

text \<open>The cast to float32 at the start of \<open>idct\<close>: casting the input first changes nothing.\<close>

lemma astype_float32_twice: "astype (astype x Float32) Float32 = astype x Float32"
  by (simp add: astype_def)

lemma idct_kernel_cast: "idct_kernel p (astype x Float32) a = idct_kernel p x a"
  by (simp add: idct_kernel_def idct_scaled_def astype_float32_twice array_simps)

lemma idct_cast: "idct (astype x Float32) type None axis nrm = idct x type None axis nrm"
  by (simp add: idct_unfold pad_axis_def idct_kernel_cast array_simps split: sum.splits)

text \<open>The cast rounds: the double-precision number \<open>1 + 1/2^25\<close> lies between the float32
  neighbours \<open>1\<close> and \<open>1 + 1/2^23\<close> and goes to \<open>1\<close>, so \<open>idct\<close> of the one-element
  double-precision array holding it returns \<open>1/2\<close>.\<close>

lemma floor_log_example: "\<lfloor>log 2 \<bar>1 + 1 / 2 ^ 25 :: real\<bar>\<rfloor> = 0"
proof (rule floor_unique)
  show "of_int 0 \<le> log 2 \<bar>1 + 1 / 2 ^ 25 :: real\<bar>"
    by (simp add: zero_le_log_cancel_iff)
  have "log 2 (1 + 1 / 2 ^ 25 :: real) < log 2 2"
    by (subst log_less_cancel_iff) simp_all
  then show "log 2 \<bar>1 + 1 / 2 ^ 25 :: real\<bar> < of_int 0 + 1"
    by simp
qed

lemma round_example: "round_half_even (8388608 + 1 / 4) = 8388608"
proof -
  have "\<lfloor>8388608 + 1 / 4 :: real\<rfloor> = 8388608"
    by (rule floor_unique) simp_all
  then show ?thesis by (simp add: round_half_even_def Let_def)
qed

lemma float32_round_example: "float32_round (1 + 1 / 2 ^ 25) = 1"
proof -
  have "(1 + 1 / 2 ^ 25) / 2 powi (- 23) = (8388608 + 1 / 4 :: real)"
    by (simp add: power_int_minus field_simps)
  then show ?thesis
    using floor_log_example round_example
    unfolding float32_round_def Let_def
    by (simp add: power_int_minus)
qed

lemma rounded_kernel_value:
  assumes "shape y = [1]" "dtype y = Float64" "item y [0] = 1 + 1 / 2 ^ 25"
  shows "item (idct_kernel 2 y 0) [0] = 1 / 2"
proof -
  have b: "in_bounds (shape y) [0]"
    by (simp add: assms(1) in_bounds_def)
  have "item (idct_kernel 2 y 0) [0]
     = (\<Sum>k<shape y ! 0.
          2 * (cast_value (dtype y) Float32 (item y ([0][0 := k])) / ortho_scale (shape y ! 0) k ^ 2)
          * cos (dct_angle (shape y ! 0) k (deinterleave_index (shape y ! 0) ([0] ! 0))))"
    using b by (intro idct_kernel_item) (simp_all add: assms(1) ndim_def)
  also have "\<dots> = 2 * (cast_value (dtype y) Float32 (item y [0]) / 4)"
    by (simp add: assms(1) ortho_scale_def dct_angle_def)
  also have "cast_value (dtype y) Float32 (item y [0]) = 1"
    unfolding assms(2,3) cast_value_def using float32_round_example by simp
  finally show ?thesis by simp
qed




section \<open>Empty axes, and the element type of the inverse transform\<close>

definition returns_same :: "error + 'a array \<Rightarrow> 'a array \<Rightarrow> bool" where
  "returns_same r x = (case r of Inl e \<Rightarrow> False | Inr y \<Rightarrow> same_array y x)"

text \<open>The element of a result at an index, when there is a result.\<close>

definition result_item :: "nat list \<Rightarrow> error + 'a array \<Rightarrow> error + 'a" where
  "result_item idx r = map_sum id (\<lambda>y. item y idx) r"

definition result_dtype :: "error + 'a array \<Rightarrow> error + dtype" where
  "result_dtype r = map_sum id dtype r"

definition scalar_example :: "real array" where
  "scalar_example = \<lparr>shape = [], dtype = Float32, item = (\<lambda>idx. 7)\<rparr>"

definition unit_example :: "real array" where
  "unit_example = \<lparr>shape = [1], dtype = Float32, item = (\<lambda>idx. 1)\<rparr>"

definition double_example :: "real array" where
  "double_example = \<lparr>shape = [2], dtype = Float64, item = (\<lambda>idx. 1 + real (idx ! 0))\<rparr>"

text \<open>The inverse transform with a given number of de-scaling passes: \<open>idct\<close> with its
  normalization step replaced by \<open>p\<close> applications of \<open>_dct_ortho_norm\<close>.\<close>

definition idct_passes ::
  "nat \<Rightarrow> real array \<Rightarrow> int \<Rightarrow> int option \<Rightarrow> int \<Rightarrow> error + real array" where
  "idct_passes p x type n axis =
     (if type \<noteq> 2 then Inl NotImplementedError
      else case canonicalize_axis axis (ndim x) of Inl e \<Rightarrow> Inl e | Inr axis \<Rightarrow>
        (case pad_axis x n axis of Inl e \<Rightarrow> Inl e | Inr x \<Rightarrow>
          (let N = shape x ! axis;
               x = astype x Float32;
               x = ((\<lambda>y. dct_ortho_norm y axis) ^^ p) x;
               k = lax_expand_dims (jnp_arange N Float32) [a \<leftarrow> [0..<ndim x]. a \<noteq> axis];
               w4 = W4 N k;
               x = astype_complex (complex_values x) (dtype w4);
               x = array_div x (W4 N k);
               x = mul_scalar (mul_scalar x 2) (of_nat N);
               x = jnp_fft_ifft x axis;
               out = dct_deinterleave (real_part x) axis
           in Inr out)))"

lemma same_array_refl: "same_array x x"
  by (simp add: same_array_def same_values_def)

lemma pad_axes_no_axes: "\<exists>y. pad_axes x s [] = Inr y \<and> same_array y x"
proof (cases s)
  case None
  then show ?thesis by (simp add: pad_axes_def same_array_refl)
next
  case (Some sl)
  have "\<exists>y. lax_pad x 0 (map (\<lambda>a. (0, 0, 0)) [0..<ndim x]) = Inr y \<and> same_array y x"
    by (rule lax_pad_zero) simp
  with Some show ?thesis by (simp add: pad_axes_def)
qed

text \<open>
  Claim C10. A call to \<open>dctn\<close> or \<open>idctn\<close> with an empty sequence of axes, or with the
  default axes on an array of rank zero, returns its input: no error, and a result with the
  shape, the element type and the elements of \<open>x\<close>, whatever \<open>s\<close> and the norm are.
\<close>

theorem empty_axes_unchanged:
  assumes "axes = Some [] \<or> (axes = None \<and> ndim x = 0)"
  shows "returns_same (dctn x 2 s axes nrm) x \<and> returns_same (idctn x 2 s axes nrm) x"
proof -
  have ax: "(case axes of None \<Rightarrow> map int [0..<ndim x] | Some a \<Rightarrow> a) = []"
    using assms by auto
  obtain y where y: "pad_axes x s [] = Inr y" "same_array y x"
    using pad_axes_no_axes by blast
  have "dctn x 2 s axes nrm = Inr y"
    by (subst dctn.simps) (simp add: ax y axes_blocks_def)
  moreover have "idctn x 2 s axes nrm = Inr y"
    by (simp add: idctn_def ax y)
  ultimately show ?thesis using y(2) by (simp add: returns_same_def)
qed

theorem empty_axes_unchanged_witness:
  "returns_same (dctn scalar_example 2 None None None) scalar_example
   \<and> returns_same (idctn scalar_example 2 None None None) scalar_example
   \<and> returns_same (dctn unit_example 2 (Some [5]) (Some []) (Some ''ortho'')) unit_example
   \<and> returns_same (idctn unit_example 2 (Some [5]) (Some []) (Some ''ortho'')) unit_example"
  using empty_axes_unchanged [of None scalar_example None None]
    empty_axes_unchanged [of "Some []" unit_example "Some [5]" "Some ''ortho''"]
  by (simp add: ndim_def scalar_example_def)

lemma for_loop_last:
  assumes "for_loop body as x = Inr y" "as \<noteq> []"
    and "\<And>x a y. body x a = Inr y \<Longrightarrow> P y"
  shows "P y"
  using assms(1,2)
proof (induction as arbitrary: x)
  case Nil
  then show ?case by simp
next
  case (Cons a as)
  from Cons.prems(1) obtain z where z: "body x a = Inr z" "for_loop body as z = Inr y"
    by (auto split: sum.splits)
  show ?case
  proof (cases "as = []")
    case True
    with z have "y = z" by simp
    with z(1) assms(3) show ?thesis by blast
  next
    case False
    with Cons.IH z(2) show ?thesis by blast
  qed
qed

lemma idct_dtype: "idct x type n axis nrm = Inr y \<Longrightarrow> dtype y = Float32"
  by (auto simp: idct_unfold idct_kernel_def dtype_dct_deinterleave idct_spectrum_def
      array_simps array_div_def W4_dtype split: if_splits sum.splits)

text \<open>Example input: a double-precision array of one element that is no float32 number.\<close>

definition precise_example :: "real array" where
  "precise_example = \<lparr>shape = [1], dtype = Float64, item = (\<lambda>idx. 1 + 1 / 2 ^ 25)\<rparr>"

text \<open>
  Claim C9. Whatever the element type of the input, a result of \<open>idct\<close> has the element type
  float32, and \<open>idct\<close> does return a result when the axis is valid, has length at least
  one, and no length is requested. \<open>idct\<close> casts its input to float32 before anything else:
  it returns what it returns on the input cast to float32, so what a double-precision input
  holds beyond single precision is lost. A result of \<open>idctn\<close> has the element type float32
  when at least one axis is transformed.
\<close>

theorem idct_returns_float32:
  "(idct x type n axis nrm = Inr y \<longrightarrow> dtype y = Float32)
   \<and> (canonicalize_axis axis (ndim x) = Inr a \<longrightarrow> 0 < shape x ! a
        \<longrightarrow> result_dtype (idct x 2 None axis nrm) = Inr Float32)
   \<and> idct x type None axis nrm = idct (astype x Float32) type None axis nrm
   \<and> (idctn x type s axes nrm = Inr z
        \<longrightarrow> (case axes of None \<Rightarrow> ndim x | Some a \<Rightarrow> length a) \<noteq> 0
        \<longrightarrow> dtype z = Float32)"
proof (intro conjI impI)
  assume "idct x type n axis nrm = Inr y"
  then show "dtype y = Float32" by (rule idct_dtype)
next
  assume "canonicalize_axis axis (ndim x) = Inr a"
  then show "result_dtype (idct x 2 None axis nrm) = Inr Float32"
    by (simp add: result_dtype_def idct_unfold pad_axis_def idct_kernel_dtype)
next
  show "idct x type None axis nrm = idct (astype x Float32) type None axis nrm"
    by (simp only: idct_cast)
next
  let ?axes = "case axes of None \<Rightarrow> map int [0..<ndim x] | Some a \<Rightarrow> a"
  assume r: "idctn x type s axes nrm = Inr z"
    and "(case axes of None \<Rightarrow> ndim x | Some a \<Rightarrow> length a) \<noteq> 0"
  then have ne: "?axes \<noteq> []" by (auto split: option.splits)
  show "dtype z = Float32"
  proof (cases "length ?axes = 1")
    case True
    with r obtain m where "idct x 2 m (?axes ! 0) nrm = Inr z"
      by (auto simp: idctn_def Let_def split: if_splits sum.splits)
    then show ?thesis by (rule idct_dtype)
  next
    case False
    with r obtain x' where "for_loop (\<lambda>x axis. idct x 2 None axis nrm) ?axes x' = Inr z"
      by (auto simp: idctn_def Let_def split: if_splits sum.splits)
    from this ne show ?thesis
      by (rule for_loop_last) (rule idct_dtype)
  qed
qed

theorem idct_returns_float32_witness:
  "dtype double_example = Float64
   \<and> canonicalize_axis (- 1) (ndim double_example) = Inr 0
   \<and> 0 < shape double_example ! 0
   \<and> idct double_example 2 None (- 1) None = Inr (idct_kernel 2 double_example 0)
   \<and> idctn double_example 2 None None None = Inr (idct_kernel 2 double_example 0)
   \<and> dtype (idct_kernel 2 double_example 0) = Float32
   \<and> result_dtype (idct double_example 2 None (- 1) None) = Inr Float32
   \<and> idct (astype double_example Float32) 2 None (- 1) None
       = Inr (idct_kernel 2 double_example 0)
   \<and> item precise_example [0] = 1 + 1 / 2 ^ 25
   \<and> result_item [0] (idct precise_example 2 None (- 1) None) = Inr (1 / 2)"
proof -
  have 0: "canonicalize_axis (- 1) (ndim double_example) = Inr 0"
    by (simp add: canonicalize_axis_def ndim_def double_example_def)
  have 1: "idct double_example 2 None (- 1) None = Inr (idct_kernel 2 double_example 0)"
    by (simp add: idct_unfold 0 pad_axis_def norm_passes_def)
  have 2: "idctn double_example 2 None None None = Inr (idct_kernel 2 double_example 0)"
    by (simp add: idctn_def first_length_def idct_unfold canonicalize_axis_def pad_axis_def
        norm_passes_def ndim_def double_example_def)
  have 3: "(case None :: int list option of None \<Rightarrow> ndim double_example | Some a \<Rightarrow> length a) \<noteq> 0"
    by (simp add: ndim_def double_example_def)
  have 4: "dtype double_example = Float64" by (simp add: double_example_def)
  have 5: "0 < shape double_example ! 0" by (simp add: double_example_def)
  have 6: "item precise_example [0] = 1 + 1 / 2 ^ 25" by (simp add: precise_example_def)
  have "item (idct_kernel 2 precise_example 0) [0] = 1 / 2"
    using 6 by (intro rounded_kernel_value) (simp_all add: precise_example_def)
  then have 7: "result_item [0] (idct precise_example 2 None (- 1) None) = Inr (1 / 2)"
    by (simp add: result_item_def idct_unfold canonicalize_axis_def pad_axis_def ndim_def
        norm_passes_def precise_example_def)
  note t = idct_returns_float32 [of double_example 2 None "- 1" None
      "idct_kernel 2 double_example 0" 0 None None "idct_kernel 2 double_example 0"]
  from t 0 5 have a: "result_dtype (idct double_example 2 None (- 1) None) = Inr Float32"
    by blast
  from t 2 3 have c: "dtype (idct_kernel 2 double_example 0) = Float32"
    by blast
  from t have "idct double_example 2 None (- 1) None
      = idct (astype double_example Float32) 2 None (- 1) None"
    by blast
  with 1 have d: "idct (astype double_example Float32) 2 None (- 1) None
      = Inr (idct_kernel 2 double_example 0)"
    by simp
  show ?thesis
    by (intro conjI 4 0 5 1 2 c a d 6 7)
qed

section \<open>The normalization step of the inverse transform\<close>

lemma idct_passes_unfold:
  "idct_passes p x type n axis =
     (if type \<noteq> 2 then Inl NotImplementedError
      else case canonicalize_axis axis (ndim x) of Inl e \<Rightarrow> Inl e | Inr axis \<Rightarrow>
        (case pad_axis x n axis of Inl e \<Rightarrow> Inl e | Inr x \<Rightarrow> Inr (idct_kernel p x axis)))"
  by (simp add: idct_passes_def idct_kernel_def idct_spectrum_def idct_scaled_def Let_def W4_dtype
      array_simps split: sum.splits)

lemma unit_kernel_value: "item (idct_kernel p unit_example 0) [0] = 2 / 2 ^ p"
proof -
  have b: "in_bounds (shape unit_example) [0]"
    by (simp add: unit_example_def in_bounds_def)
  have "item (idct_kernel p unit_example 0) [0]
     = (\<Sum>k<shape unit_example ! 0.
          2 * (cast_value (dtype unit_example) Float32 (item unit_example ([0][0 := k]))
            / ortho_scale (shape unit_example ! 0) k ^ p)
          * cos (dct_angle (shape unit_example ! 0) k
               (deinterleave_index (shape unit_example ! 0) ([0] ! 0))))"
    using b by (intro idct_kernel_item) (simp_all add: unit_example_def ndim_def)
  also have "\<dots> = 2 / 2 ^ p"
    by (simp add: unit_example_def ortho_scale_def dct_angle_def)
  finally show ?thesis .
qed

lemma unit_idct_value:
  "result_item [0] (idct unit_example 2 None (- 1) nrm)
     = Inr (2 / 2 ^ norm_passes nrm)"
  using unit_kernel_value [of "norm_passes nrm"]
  by (simp add: result_item_def idct_unfold canonicalize_axis_def pad_axis_def ndim_def
      unit_example_def)

lemma unit_idct_passes_value:
  "result_item [0] (idct_passes p unit_example 2 None (- 1)) = Inr (2 / 2 ^ p)"
  using unit_kernel_value [of p]
  by (simp add: result_item_def idct_passes_unfold canonicalize_axis_def pad_axis_def ndim_def
      unit_example_def)

text \<open>
  Claim C4, as amended. \<open>idct\<close> applies the orthonormal de-scaling pass once whatever the
  norm, and a second time when the norm is \<open>None\<close>: two applications when the norm is
  \<open>None\<close>, one when it is the orthonormal marker. The claim as stated (three and two) fails
  on the one-element array \<open>[1]\<close>, where three passes give 1/4 and \<open>idct\<close> gives 1/2.
\<close>

theorem idct_normalization_passes:
  "idct x type n axis None = idct_passes 2 x type n axis
   \<and> idct x type n axis (Some ''ortho'') = idct_passes 1 x type n axis"
  by (simp add: idct_unfold idct_passes_unfold norm_passes_def split: sum.splits)

theorem idct_three_passes_counterexample:
  "result_item [0] (idct unit_example 2 None (- 1) None)
     \<noteq> result_item [0] (idct_passes 3 unit_example 2 None (- 1))
   \<and> result_item [0] (idct unit_example 2 None (- 1) (Some ''ortho''))
     \<noteq> result_item [0] (idct_passes 2 unit_example 2 None (- 1))"
  by (simp add: unit_idct_value unit_idct_passes_value norm_passes_def)

text \<open>
  Claim C5. On the one-element array \<open>[1]\<close>, \<open>idct\<close> with the unrecognized norm \<open>foo\<close>
  returns 1, the result of the orthonormal call, where the call with the norm unset returns
  1/2: \<open>idct\<close> treats every norm other than \<open>None\<close> as the orthonormal marker, while
  \<open>dct\<close> treats every norm other than the marker as \<open>None\<close>.
\<close>

theorem idct_unknown_norm_divergence:
  "result_item [0] (idct unit_example 2 None (- 1) (Some ''foo'')) = Inr 1
   \<and> result_item [0] (idct unit_example 2 None (- 1) None) = Inr (1 / 2)
   \<and> result_item [0] (idct unit_example 2 None (- 1) (Some ''ortho'')) = Inr 1"
  by (simp add: unit_idct_value norm_passes_def)

lemma dct_unknown_norm:
  "nrm \<noteq> Some ''ortho'' \<Longrightarrow> dct x type n axis nrm = dct x type n axis None"
  by (simp add: dct_def Let_def split: sum.splits)

section \<open>The round trip\<close>






definition then_call :: "error + 'a \<Rightarrow> ('a \<Rightarrow> error + 'b) \<Rightarrow> error + 'b" where
  "then_call r f = (case r of Inl e \<Rightarrow> Inl e | Inr y \<Rightarrow> f y)"

lemma pad_axis_None: "pad_axis x None a = Inr x"
  by (simp add: pad_axis_def)

lemma canonicalize_axis_less: "canonicalize_axis axis n = Inr a \<Longrightarrow> a < n"
  by (auto simp: canonicalize_axis_def split: if_splits)










section \<open>Padding and truncation in the forward transform\<close>

text \<open>The arrays the padding and truncation claims compare with: \<open>x\<close> with \<open>k\<close> zeros appended
  at the end of an axis, and \<open>x\<close> without its last \<open>k\<close> elements along an axis.\<close>

definition append_zeros :: "'a::zero array \<Rightarrow> nat \<Rightarrow> nat \<Rightarrow> 'a array" where
  "append_zeros x a k = lax_concatenate x (jnp_zeros ((shape x)[a := k]) (dtype x)) a"

definition drop_last :: "'a array \<Rightarrow> nat \<Rightarrow> nat \<Rightarrow> 'a array" where
  "drop_last x a k = lax_slice_in_dim x None (Some (shape x ! a - k)) 1 a"

definition same_result :: "error + 'a array \<Rightarrow> error + 'a array \<Rightarrow> bool" where
  "same_result r r' =
     (case r of Inl e \<Rightarrow> False
      | Inr y \<Rightarrow> (case r' of Inl e \<Rightarrow> False | Inr y' \<Rightarrow> same_array y y'))"

definition result_shape :: "error + 'a array \<Rightarrow> error + nat list" where
  "result_shape r = map_sum id shape r"

lemma in_bounds_update_shape:
  assumes "a < length sh"
  shows "in_bounds (sh[a := M]) idx \<longleftrightarrow>
     length idx = length sh \<and> idx ! a < M \<and> (\<forall>b<length sh. b \<noteq> a \<longrightarrow> idx ! b < sh ! b)"
  using assms by (auto simp: in_bounds_iff_nth nth_list_update)

lemma pad_axis_Some:
  assumes a: "a < ndim x" and n: "0 \<le> n"
  shows "\<exists>y. pad_axis x (Some n) a = Inr y
           \<and> shape y = (shape x)[a := nat n] \<and> dtype y = dtype x
           \<and> (\<forall>idx. length idx = ndim x \<longrightarrow>
                 item y idx = (if in_bounds (shape x) idx then item x idx else 0))"
proof -
  let ?h = "\<lambda>b. if b = a then n - int (shape x ! a) else 0"
  have c: "[(0, if b = a then n - int (shape x ! a) else 0, 0). b \<leftarrow> [0..<ndim x]]
      = map (\<lambda>b. (0, ?h b, 0)) [0..<ndim x]" by simp
  have nn: "\<forall>b<ndim x. 0 \<le> int (shape x ! b) + ?h b" using n by simp
  have sh: "map (\<lambda>b. nat (int (shape x ! b) + ?h b)) [0..<ndim x] = (shape x)[a := nat n]"
    using a by (intro nth_equalityI) (auto simp: ndim_def nth_list_update)
  from lax_pad_high [OF c nn, of 0] show ?thesis
    unfolding pad_axis_def sh by simp
qed

lemma dct_kernel_cong:
  assumes "same_array x x'" "a < ndim x" "0 < shape x ! a"
  shows "same_array (dct_kernel x a nrm) (dct_kernel x' a nrm)"
proof -
  have s: "shape x' = shape x" and d: "dtype x' = dtype x"
    and i: "\<And>idx. in_bounds (shape x) idx \<Longrightarrow> item x idx = item x' idx"
    using assms(1) by (simp_all add: same_array_def same_values_iff)
  have a': "a < ndim x'" "0 < shape x' ! a" using assms(2,3) by (simp_all add: ndim_def s)
  have al: "a < length (shape x)" using assms(2) by (simp add: ndim_def)
  have "item (dct_kernel x a nrm) idx = item (dct_kernel x' a nrm) idx"
    if b: "in_bounds (shape x) idx" for idx
  proof -
    have b': "in_bounds (shape x') idx" using b by (simp add: s)
    have "(\<Sum>m<shape x ! a. item x (idx[a := interleave_index (shape x ! a) m])
                  * cos (dct_angle (shape x ! a) (idx ! a) m))
        = (\<Sum>m<shape x ! a. item x' (idx[a := interleave_index (shape x ! a) m])
                  * cos (dct_angle (shape x ! a) (idx ! a) m))"
    proof (rule sum.cong [OF refl])
      fix m assume "m \<in> {..<shape x ! a}"
      then have "interleave_index (shape x ! a) m < shape x ! a"
        by (simp add: interleave_index_less)
      with b al have "in_bounds (shape x) (idx[a := interleave_index (shape x ! a) m])"
        by (rule in_bounds_update_same)
      then show "item x (idx[a := interleave_index (shape x ! a) m])
                  * cos (dct_angle (shape x ! a) (idx ! a) m)
          = item x' (idx[a := interleave_index (shape x ! a) m])
                  * cos (dct_angle (shape x ! a) (idx ! a) m)"
        by (simp add: i)
    qed
    then show ?thesis
      unfolding dct_kernel_item [OF b assms(2,3)] dct_kernel_item [OF b' a'] s by simp
  qed
  then show ?thesis
    using assms(2,3) a'
    by (simp add: same_array_def same_values_iff dct_kernel_shape dct_kernel_dtype s d)
qed

lemma pad_axis_append_zeros:
  assumes "a < ndim x" "pad_axis x (Some (int (shape x ! a) + int k)) a = Inr y"
  shows "same_array y (append_zeros x a k)"
proof -
  let ?N = "shape x ! a"
  have al: "a < length (shape x)" using assms(1) by (simp add: ndim_def)
  from pad_axis_Some [OF assms(1), of "int ?N + int k"] assms(2)
  have s: "shape y = (shape x)[a := ?N + k]" and d: "dtype y = dtype x"
    and i: "\<And>idx. length idx = ndim x \<Longrightarrow>
                 item y idx = (if in_bounds (shape x) idx then item x idx else 0)"
    by (auto simp: nat_add_distrib)
  have "item y idx = item (append_zeros x a k) idx"
    if "in_bounds ((shape x)[a := ?N + k]) idx" for idx
  proof -
    from that have l: "length idx = ndim x" and o: "\<forall>b<length (shape x). b \<noteq> a \<longrightarrow> idx ! b < shape x ! b"
      by (simp_all add: in_bounds_update_shape [OF al] ndim_def)
    have "in_bounds (shape x) idx \<longleftrightarrow> idx ! a < ?N"
      using l o al by (auto simp: in_bounds_iff_nth ndim_def)
    then show ?thesis
      by (simp add: i [OF l] append_zeros_def array_simps)
  qed
  then show ?thesis
    using al by (simp add: same_array_def same_values_iff s d append_zeros_def array_simps)
qed

lemma pad_axis_drop_last:
  assumes "a < ndim x" "k \<le> shape x ! a"
    and "pad_axis x (Some (int (shape x ! a) - int k)) a = Inr y"
  shows "same_array y (drop_last x a k)"
proof -
  let ?N = "shape x ! a"
  have al: "a < length (shape x)" using assms(1) by (simp add: ndim_def)
  have n: "0 \<le> int ?N - int k" using assms(2) by simp
  from pad_axis_Some [OF assms(1) n] assms(3)
  have s: "shape y = (shape x)[a := ?N - k]" and d: "dtype y = dtype x"
    and i: "\<And>idx. length idx = ndim x \<Longrightarrow>
                 item y idx = (if in_bounds (shape x) idx then item x idx else 0)"
    using assms(2) by (auto simp: nat_diff_distrib)
  have "item y idx = item (drop_last x a k) idx"
    if "in_bounds ((shape x)[a := ?N - k]) idx" for idx
  proof -
    from that have l: "length idx = ndim x" and ka: "idx ! a < ?N - k"
      and o: "\<forall>b<length (shape x). b \<noteq> a \<longrightarrow> idx ! b < shape x ! b"
      by (simp_all add: in_bounds_update_shape [OF al] ndim_def)
    have "in_bounds (shape x) idx"
      using l o al ka by (auto simp: in_bounds_iff_nth ndim_def)
    then show ?thesis
      by (simp add: i [OF l] drop_last_def lax_slice_in_dim_def slice_defs)
  qed
  then show ?thesis
    by (simp add: same_array_def same_values_iff s d drop_last_def lax_slice_in_dim_def slice_defs)
qed


lemma dct_with_length:
  assumes ax: "canonicalize_axis axis (ndim x) = Inr a" and n: "0 < n"
    and x': "same_array y x'" "shape x' = (shape x)[a := nat n]"
    and p: "pad_axis x (Some n) a = Inr y"
  shows "same_result (dct x 2 (Some n) axis nrm) (dct x' 2 None axis nrm)
       \<and> result_shape (dct x 2 (Some n) axis nrm) = Inr ((shape x)[a := nat n])"
proof -
  have a: "a < ndim x" using ax by (rule canonicalize_axis_less)
  have sy: "shape y = (shape x)[a := nat n]"
    using x' by (simp add: same_array_def same_values_def)
  have ay: "a < ndim y" "0 < shape y ! a"
    using a n by (simp_all add: ndim_def sy)
  have 1: "dct x 2 (Some n) axis nrm = Inr (dct_kernel y a nrm)"
    by (simp add: dct_unfold ax p)
  have "ndim x' = ndim x" by (simp add: ndim_def x'(2))
  then have 2: "dct x' 2 None axis nrm = Inr (dct_kernel x' a nrm)"
    by (simp add: dct_unfold ax pad_axis_None)
  have "same_array (dct_kernel y a nrm) (dct_kernel x' a nrm)"
    using x'(1) ay by (rule dct_kernel_cong)
  moreover have "shape (dct_kernel y a nrm) = (shape x)[a := nat n]"
    using ay by (simp add: dct_kernel_shape sy)
  ultimately show ?thesis
    by (simp add: same_result_def result_shape_def 1 2)
qed

text \<open>
  Claim C8. For a real array \<open>x\<close> whose transform axis has length \<open>N\<close>, \<open>dct(x, n=N+2)\<close> returns
  a result of length \<open>N+2\<close> along the axis, equal to \<open>dct\<close> of \<open>x\<close> with two zeros appended at
  the end of the axis; and for \<open>N > 2\<close>, \<open>dct(x, n=N-2)\<close> returns the result of \<open>dct\<close> of \<open>x\<close>
  without its last two elements along the axis.
\<close>

theorem dct_pad_and_truncate:
  assumes ax: "canonicalize_axis axis (ndim x) = Inr a" and N: "shape x ! a = N"
  shows "same_result (dct x 2 (Some (int N + 2)) axis nrm)
           (dct (append_zeros x a 2) 2 None axis nrm)
       \<and> result_shape (dct x 2 (Some (int N + 2)) axis nrm) = Inr ((shape x)[a := N + 2])
       \<and> (2 < N \<longrightarrow>
            same_result (dct x 2 (Some (int N - 2)) axis nrm)
              (dct (drop_last x a 2) 2 None axis nrm))"
proof -
  have a: "a < ndim x" using ax by (rule canonicalize_axis_less)
  have al: "a < length (shape x)" using a by (simp add: ndim_def)
  obtain y where y: "pad_axis x (Some (int N + 2)) a = Inr y"
    using pad_axis_Some [OF a, of "int N + 2"] by auto
  have "same_array y (append_zeros x a 2)"
    using pad_axis_append_zeros [OF a, of 2 y] y by (simp add: N)
  moreover have "shape (append_zeros x a 2) = (shape x)[a := nat (int N + 2)]"
    using al by (simp add: append_zeros_def array_simps N nat_add_distrib)
  ultimately have 1: "same_result (dct x 2 (Some (int N + 2)) axis nrm)
           (dct (append_zeros x a 2) 2 None axis nrm)
       \<and> result_shape (dct x 2 (Some (int N + 2)) axis nrm) = Inr ((shape x)[a := nat (int N + 2)])"
    using y by (intro dct_with_length [OF ax]) simp_all
  have 2: "same_result (dct x 2 (Some (int N - 2)) axis nrm)
              (dct (drop_last x a 2) 2 None axis nrm)" if "2 < N"
  proof -
    have "0 \<le> int N - 2" using that by simp
    from pad_axis_Some [OF a this]
    obtain z where z: "pad_axis x (Some (int N - 2)) a = Inr z" by auto
    have "same_array z (drop_last x a 2)"
      using pad_axis_drop_last [OF a, of 2 z] z that by (simp add: N)
    moreover have "shape (drop_last x a 2) = (shape x)[a := nat (int N - 2)]"
      using that by (simp add: drop_last_def lax_slice_in_dim_def slice_defs N nat_diff_distrib)
    ultimately show ?thesis
      using z that dct_with_length [OF ax, of "int N - 2" z "drop_last x a 2" nrm] by simp
  qed
  from 1 2 show ?thesis by (simp add: nat_add_distrib)
qed

definition triple_example :: "real array" where
  "triple_example = \<lparr>shape = [3], dtype = Float32, item = (\<lambda>idx. real (idx ! 0) + 1)\<rparr>"

theorem dct_pad_and_truncate_witness:
  "canonicalize_axis (- 1) (ndim triple_example) = Inr 0 \<and> shape triple_example ! 0 = 3
   \<and> (2::nat) < 3
   \<and> same_result (dct triple_example 2 (Some 5) (- 1) None)
           (dct (append_zeros triple_example 0 2) 2 None (- 1) None)
   \<and> result_shape (dct triple_example 2 (Some 5) (- 1) None) = Inr [5]
   \<and> same_result (dct triple_example 2 (Some 1) (- 1) None)
           (dct (drop_last triple_example 0 2) 2 None (- 1) None)"
proof -
  have 1: "canonicalize_axis (- 1) (ndim triple_example) = Inr 0"
    by (simp add: canonicalize_axis_def ndim_def triple_example_def)
  have 2: "shape triple_example ! 0 = 3" by (simp add: triple_example_def)
  have 3: "(shape triple_example)[0 := 3 + 2] = [5]" by (simp add: triple_example_def)
  from dct_pad_and_truncate [OF 1 2, of None] 1 2 3
  show ?thesis by simp
qed

section \<open>Phase identities for the two-dimensional fast path\<close>

lemma cis_pair: "cis (- t) + cis t = complex_of_real (2 * cos t)"
  by (simp add: complex_eq_iff)

lemma cis_full_turns: "cis (2 * pi * real m) = 1"
  by (rule cis_multiple_2pi) simp

lemma mirror_index:
  assumes "k < N"
  shows "N - 1 - nat ((int k - 1) mod int N) = (if k = 0 then 0 else N - k)"
proof (cases "k = 0")
  case True
  have "(- 1) mod int N = int N - 1"
    using assms by (simp add: zmod_minus1)
  with True assms show ?thesis by (simp add: nat_diff_distrib)
next
  case False
  then have "(int k - 1) mod int N = int k - 1"
    using assms by (intro mod_pos_pos_trivial) simp_all
  with False assms show ?thesis by (simp add: nat_diff_distrib)
qed

lemma mirror_phase:
  assumes "k < N"
  shows "cis (- (2 * pi * real (N - 1 - nat ((int k - 1) mod int N)) * real m / real N))
         = cis (2 * pi * real k * real m / real N)"
proof (cases "k = 0")
  case True
  show ?thesis unfolding mirror_index [OF assms] using True by simp
next
  case False
  have N: "0 < N" using assms by simp
  have "- (2 * pi * real (N - k) * real m / real N)
      = 2 * pi * real k * real m / real N + - (2 * pi * real m)"
    using assms N by (simp add: of_nat_diff field_simps)
  then have "cis (- (2 * pi * real (N - k) * real m / real N))
      = cis (2 * pi * real k * real m / real N) * cis (- (2 * pi * real m))"
    by (simp only: cis_mult)
  also have "cis (- (2 * pi * real m)) = 1"
    using cis_full_turns [of m] by (simp only: cis_cnj [symmetric]) simp
  finally show ?thesis unfolding mirror_index [OF assms] using False by simp
qed

lemma dct2_combine:
  fixes G :: "nat \<Rightarrow> complex"
  shows "cis (- b1) * (cis (- b2) * (\<Sum>m<N. G m * cis (- g m)) + cis b2 * (\<Sum>m<N. G m * cis (g m)))
         = (\<Sum>m<N. cis (- b1) * G m * complex_of_real (2 * cos (b2 + g m)))"
proof -
  have pair: "cis (- b2) * (G m * cis (- g m)) + cis b2 * (G m * cis (g m))
        = G m * complex_of_real (2 * cos (b2 + g m))" for m
  proof -
    have "cis (- b2) * (G m * cis (- g m)) + cis b2 * (G m * cis (g m))
        = G m * (cis (- b2) * cis (- g m) + cis b2 * cis (g m))"
      by (simp add: algebra_simps)
    also have "\<dots> = G m * (cis (- (b2 + g m)) + cis (b2 + g m))"
      by (simp add: cis_mult)
    finally show ?thesis by (simp only: cis_pair)
  qed
  have "cis (- b2) * (\<Sum>m<N. G m * cis (- g m)) + cis b2 * (\<Sum>m<N. G m * cis (g m))
      = (\<Sum>m<N. cis (- b2) * (G m * cis (- g m)) + cis b2 * (G m * cis (g m)))"
    by (simp only: sum_distrib_left sum.distrib)
  also have "\<dots> = (\<Sum>m<N. G m * complex_of_real (2 * cos (b2 + g m)))"
    by (simp only: pair)
  finally have "cis (- b1) * (cis (- b2) * (\<Sum>m<N. G m * cis (- g m)) + cis b2 * (\<Sum>m<N. G m * cis (g m)))
      = cis (- b1) * (\<Sum>m<N. G m * complex_of_real (2 * cos (b2 + g m)))"
    by (simp only:)
  also have "\<dots> = (\<Sum>m<N. cis (- b1) * G m * complex_of_real (2 * cos (b2 + g m)))"
    by (simp only: sum_distrib_left mult.assoc)
  finally show ?thesis .
qed

section \<open>The two-dimensional fast path\<close>

definition dct2_spectrum :: "real array \<Rightarrow> nat \<Rightarrow> nat \<Rightarrow> complex array" where
  "dct2_spectrum x b1 b2 =
     jnp_fft_fft (jnp_fft_fft (complex_values (dct_interleave (dct_interleave x b1) b2)) b1) b2"

definition dct2_combined ::
  "complex array \<Rightarrow> nat \<Rightarrow> nat \<Rightarrow> nat \<Rightarrow> nat \<Rightarrow> nat \<Rightarrow> real array" where
  "dct2_combined V n N1 N2 b1 b2 =
     (let k1 = lax_expand_dims (jnp_arange N1 (dtype V)) [a \<leftarrow> [0..<n]. a \<noteq> b1];
          k2 = lax_expand_dims (jnp_arange N2 (dtype V)) [a \<leftarrow> [0..<n]. a \<noteq> b2];
          out = array_mul (W4 N1 k1)
                  (array_add (array_mul (W4 N2 k2) V)
                     (array_mul (W4 N2 (array_neg k2)) (jnp_roll (jnp_flip V b2) 1 b2)))
      in scalar_mul 2 (real_part out))"

definition dct2_kernel :: "real array \<Rightarrow> nat \<Rightarrow> nat \<Rightarrow> string option \<Rightarrow> real array" where
  "dct2_kernel x b1 b2 nrm =
     (let out = dct2_combined (dct2_spectrum x b1 b2) (ndim x) (shape x ! b1) (shape x ! b2) b1 b2
      in if nrm = Some ''ortho'' then dct_ortho_norm (dct_ortho_norm out b1) b2 else out)"

lemma jnp_fft_fftn_two:
  assumes "canonicalize_axis a1 (ndim v) = Inr b1" "canonicalize_axis a2 (ndim v) = Inr b2"
  shows "jnp_fft_fftn v [a1, a2] =
           (if a1 = a2 then Inl ValueError else if b1 = b2 then Inl TypeError
            else Inr (jnp_fft_fft (jnp_fft_fft v b1) b2))"
  using assms by (simp add: jnp_fft_fftn_def array_simps)

lemma ndim_dct_interleave: "ndim (dct_interleave x a) = ndim x"
  by (simp add: ndim_def shape_dct_interleave)

lemma dct2_unfold:
  assumes "canonicalize_axis a1 (ndim x) = Inr b1" "canonicalize_axis a2 (ndim x) = Inr b2"
  shows "dct2 x [a1, a2] nrm =
           (if a1 = a2 then Inl ValueError else if b1 = b2 then Inl TypeError
            else Inr (dct2_kernel x b1 b2 nrm))"
proof -
  let ?v = "complex_values (dct_interleave (dct_interleave x b1) b2)"
  have n: "ndim ?v = ndim x" by (simp add: array_simps ndim_dct_interleave)
  have "jnp_fft_fftn ?v [a1, a2] =
           (if a1 = a2 then Inl ValueError else if b1 = b2 then Inl TypeError
            else Inr (dct2_spectrum x b1 b2))"
    unfolding dct2_spectrum_def using assms by (intro jnp_fft_fftn_two) (simp_all add: n)
  then show ?thesis
    using assms
    by (simp add: dct2_def dct2_kernel_def dct2_combined_def Let_def)
qed

lemma twiddle_array_shape:
  assumes "a < n"
  shows "shape (W4 N (lax_expand_dims (jnp_arange N d) [c \<leftarrow> [0..<n]. c \<noteq> a])) = axis_shape n a N"
    and "shape (W4 N (array_neg (lax_expand_dims (jnp_arange N d) [c \<leftarrow> [0..<n]. c \<noteq> a])))
         = axis_shape n a N"
  using assms by (simp_all add: W4_shape index_array_shape array_simps)

lemma twiddle_item:
  assumes "in_bounds sh idx" "a < length sh"
  shows "item (W4 (sh ! a) (lax_expand_dims (jnp_arange (sh ! a) d) [c \<leftarrow> [0..<length sh]. c \<noteq> a]))
           (broadcast_index (axis_shape (length sh) a (sh ! a)) idx)
         = cis (- (pi * real (idx ! a) / (2 * real (sh ! a))))"
  unfolding W4_item index_array_item [OF assms(2)] broadcast_index_axis [OF assms] twiddle_cis ..

lemma twiddle_neg_item:
  assumes "in_bounds sh idx" "a < length sh"
  shows "item (W4 (sh ! a) (array_neg
           (lax_expand_dims (jnp_arange (sh ! a) d) [c \<leftarrow> [0..<length sh]. c \<noteq> a])))
           (broadcast_index (axis_shape (length sh) a (sh ! a)) idx)
         = cis (pi * real (idx ! a) / (2 * real (sh ! a)))"
  unfolding W4_item scalar_simps index_array_item [OF assms(2)] broadcast_index_axis [OF assms]
    twiddle_cis_neg ..

lemma broadcast_shapes_same: "broadcast_shapes sh sh = sh"
  unfolding broadcast_shapes_def by (rule nth_equalityI) simp_all

lemma dct2_spectrum_shape: "shape (dct2_spectrum x b1 b2) = shape x"
  by (simp add: dct2_spectrum_def array_simps shape_dct_interleave)

lemma dct2_spectrum_dtype: "dtype (dct2_spectrum x b1 b2) = to_complex_dtype (dtype x)"
  by (simp add: dct2_spectrum_def array_simps dtype_dct_interleave)

lemma dct2_combined_shape:
  assumes "b1 < length (shape V)" "b2 < length (shape V)"
  shows "shape (dct2_combined V (length (shape V)) (shape V ! b1) (shape V ! b2) b1 b2) = shape V"
  using assms
  by (simp add: dct2_combined_def Let_def array_simps array_mul_def array_add_def
      twiddle_array_shape broadcast_shapes_axis2 broadcast_shapes_same)

lemma dct2_combined_dtype:
  "dtype (dct2_combined V n N1 N2 b1 b2) = real_dtype (to_complex_dtype (dtype V))"
proof -
  have "promote_types (dtype V) (to_complex_dtype (dtype V)) = to_complex_dtype (dtype V)"
    by (cases "dtype V") (simp_all add: promote_types.simps)
  moreover have "promote_types (to_complex_dtype (dtype V)) (dtype V) = to_complex_dtype (dtype V)"
    by (cases "dtype V") (simp_all add: promote_types.simps)
  ultimately show ?thesis
    by (simp add: dct2_combined_def Let_def array_simps array_mul_def array_add_def W4_dtype)
qed

lemma dct2_kernel_shape:
  assumes "b1 < ndim x" "b2 < ndim x" "0 < shape x ! b1" "0 < shape x ! b2"
  shows "shape (dct2_kernel x b1 b2 nrm) = shape x"
proof -
  let ?V = "dct2_spectrum x b1 b2"
  let ?out = "dct2_combined ?V (ndim x) (shape x ! b1) (shape x ! b2) b1 b2"
  have "shape (dct2_combined ?V (length (shape ?V)) (shape ?V ! b1) (shape ?V ! b2) b1 b2) = shape ?V"
    using assms(1,2) by (intro dct2_combined_shape) (simp_all add: dct2_spectrum_shape ndim_def)
  then have s: "shape ?out = shape x" by (simp add: dct2_spectrum_shape ndim_def)
  have s1: "shape (dct_ortho_norm ?out b1) = shape x"
    using dct_ortho_norm_shape [of b1 ?out] assms s by (simp add: ndim_def)
  have "shape (dct_ortho_norm (dct_ortho_norm ?out b1) b2) = shape x"
    using dct_ortho_norm_shape [of b2 "dct_ortho_norm ?out b1"] assms s1 by (simp add: ndim_def)
  with s show ?thesis by (simp add: dct2_kernel_def Let_def)
qed


lemma dct2_kernel_dtype:
  "dtype (dct2_kernel x b1 b2 nrm) = real_dtype (to_complex_dtype (dtype x))"
  by (simp add: dct2_kernel_def Let_def dct_ortho_norm_dtype dct2_combined_dtype dct2_spectrum_dtype)

lemma dct2_spectrum_item:
  assumes "b1 \<noteq> b2" "b1 < length idx" "b2 < length idx"
  shows "item (dct2_spectrum x b1 b2) idx
     = (\<Sum>m2<shape x ! b2.
          (\<Sum>m1<shape x ! b1.
             complex_of_real (item (dct_interleave (dct_interleave x b1) b2) (idx[b2 := m2, b1 := m1]))
               * cis (- (2 * pi * real (idx ! b1) * real m1 / real (shape x ! b1))))
          * cis (- (2 * pi * real (idx ! b2) * real m2 / real (shape x ! b2))))"
  using assms
  by (simp add: dct2_spectrum_def jnp_fft_fft_def array_simps shape_dct_interleave)

lemma double_interleave_item:
  assumes b: "in_bounds (shape x) idx" and "b1 < length (shape x)" "b2 < length (shape x)"
    and ne: "b1 \<noteq> b2" and m: "m1 < shape x ! b1" "m2 < shape x ! b2"
  shows "item (dct_interleave (dct_interleave x b1) b2) (idx[b2 := m2, b1 := m1])
         = item x (idx[b2 := interleave_index (shape x ! b2) m2,
                       b1 := interleave_index (shape x ! b1) m1])"
proof -
  let ?i = "idx[b2 := m2, b1 := m1]"
  have l: "b1 < length idx" "b2 < length idx" using assms by (simp_all add: in_bounds_length)
  have "in_bounds (shape x) (idx[b2 := m2])"
    using b assms(3) m(2) by (rule in_bounds_update_same)
  then have i: "in_bounds (shape x) ?i"
    using assms(2) m(1) by (rule in_bounds_update_same)
  have i2: "?i ! b2 = m2" "?i ! b1 = m1" using l ne by simp_all
  have "in_bounds (shape x) (?i[b2 := interleave_index (shape x ! b2) m2])"
    using i assms(3) interleave_index_less [OF m(2)] by (rule in_bounds_update_same)
  then have "item (dct_interleave x b1) (?i[b2 := interleave_index (shape x ! b2) m2])
      = item x (?i[b2 := interleave_index (shape x ! b2) m2,
                   b1 := interleave_index (shape x ! b1) m1])"
    using item_dct_interleave [of x "?i[b2 := interleave_index (shape x ! b2) m2]" b1]
      assms(2) l ne by (simp add: i2)
  moreover have "item (dct_interleave (dct_interleave x b1) b2) ?i
      = item (dct_interleave x b1) (?i[b2 := interleave_index (shape x ! b2) m2])"
    using item_dct_interleave [of "dct_interleave x b1" ?i b2] i assms(3)
    by (simp add: shape_dct_interleave i2)
  moreover have "?i[b2 := interleave_index (shape x ! b2) m2,
                   b1 := interleave_index (shape x ! b1) m1]
      = idx[b2 := interleave_index (shape x ! b2) m2, b1 := interleave_index (shape x ! b1) m1]"
    using ne by (simp add: list_update_swap [of b1 b2])
  ultimately show ?thesis by simp
qed

lemma dct2_combined_item:
  assumes b: "in_bounds (shape V) idx" and b1: "b1 < length (shape V)" and b2: "b2 < length (shape V)"
  shows "item (dct2_combined V (length (shape V)) (shape V ! b1) (shape V ! b2) b1 b2) idx
     = 2 * Re (cis (- (pi * real (idx ! b1) / (2 * real (shape V ! b1))))
          * (cis (- (pi * real (idx ! b2) / (2 * real (shape V ! b2)))) * item V idx
             + cis (pi * real (idx ! b2) / (2 * real (shape V ! b2)))
               * item V (idx[b2 := shape V ! b2 - 1
                   - nat ((int (idx ! b2) - 1) mod int (shape V ! b2))])))"
proof -
  have l: "b2 < length idx" using b b2 by (simp add: in_bounds_length)
  show ?thesis
    using b b1 b2 l
    by (simp add: dct2_combined_def Let_def array_simps array_mul_def array_add_def
        twiddle_array_shape broadcast_shapes_axis2 broadcast_shapes_same
        twiddle_item twiddle_neg_item broadcast_index_self)
qed

lemma angle_split:
  assumes "0 < N"
  shows "pi * real k / (2 * real N) + 2 * pi * real k * real m / real N = dct_angle N k m"
  using assms by (simp add: dct_angle_def field_simps)

lemma Re_sum_real_cis:
  "Re (\<Sum>m<N. (\<Sum>j<M. complex_of_real (f j m) * cis (- t j)) * complex_of_real (c m))
     = (\<Sum>m<N. (\<Sum>j<M. f j m * cos (t j)) * c m)"
  by (simp add: sum_distrib_right)

lemma dct2_unnormalized_item:
  assumes b: "in_bounds (shape x) idx" and b1: "b1 < ndim x" and b2: "b2 < ndim x"
    and ne: "b1 \<noteq> b2" and N1: "0 < shape x ! b1" and N2: "0 < shape x ! b2"
  shows "item (dct2_combined (dct2_spectrum x b1 b2) (ndim x) (shape x ! b1) (shape x ! b2) b1 b2) idx
     = 2 * (\<Sum>m2<shape x ! b2.
         (2 * (\<Sum>m1<shape x ! b1.
            item x (idx[b2 := interleave_index (shape x ! b2) m2,
                        b1 := interleave_index (shape x ! b1) m1])
              * cos (dct_angle (shape x ! b1) (idx ! b1) m1)))
         * cos (dct_angle (shape x ! b2) (idx ! b2) m2))"
proof -
  define N1 where "N1 = shape x ! b1"
  define N2 where "N2 = shape x ! b2"
  define k1 where "k1 = idx ! b1"
  define k2 where "k2 = idx ! b2"
  define V where "V = dct2_spectrum x b1 b2"
  define v where "v = (\<lambda>m1 m2. item (dct_interleave (dct_interleave x b1) b2) (idx[b2 := m2, b1 := m1]))"
  define X where "X = (\<lambda>m1 m2. item x (idx[b2 := interleave_index N2 m2,
                        b1 := interleave_index N1 m1]))"
  define G where "G = (\<lambda>m2. \<Sum>m1<N1. complex_of_real (v m1 m2)
               * cis (- (2 * pi * real k1 * real m1 / real N1)))"
  define g where "g = (\<lambda>m2. 2 * pi * real k2 * real m2 / real N2)"
  define be1 where "be1 = pi * real k1 / (2 * real N1)"
  define be2 where "be2 = pi * real k2 / (2 * real N2)"
  define j where "j = N2 - 1 - nat ((int k2 - 1) mod int N2)"
  have bl1: "b1 < length (shape x)" and bl2: "b2 < length (shape x)"
    using b1 b2 by (simp_all add: ndim_def)
  have l: "b1 < length idx" "b2 < length idx" using b bl1 bl2 by (simp_all add: in_bounds_length)
  have kk: "k1 < N1" "k2 < N2"
    using b bl1 bl2 by (simp_all add: k1_def k2_def N1_def N2_def in_bounds_nth)
  have NN: "0 < N1" "0 < N2" using N1 N2 by (simp_all add: N1_def N2_def)
  have sV: "shape V = shape x" by (simp add: V_def dct2_spectrum_shape)
  have V0: "item V idx = (\<Sum>m2<N2. G m2 * cis (- g m2))"
    using dct2_spectrum_item [OF ne l, of x]
    by (simp add: V_def G_def g_def v_def N1_def N2_def k1_def k2_def)
  have "item V (idx[b2 := j]) = (\<Sum>m2<N2. G m2 * cis (- (2 * pi * real j * real m2 / real N2)))"
    using dct2_spectrum_item [OF ne, of "idx[b2 := j]" x] l ne
    by (simp add: V_def G_def v_def N1_def N2_def k1_def)
  also have "\<dots> = (\<Sum>m2<N2. G m2 * cis (g m2))"
    unfolding j_def g_def by (simp only: mirror_phase [OF kk(2)])
  finally have V1: "item V (idx[b2 := j]) = (\<Sum>m2<N2. G m2 * cis (g m2))" .
  have c: "item (dct2_combined V (length (shape V)) (shape V ! b1) (shape V ! b2) b1 b2) idx
     = 2 * Re (cis (- be1) * (cis (- be2) * item V idx + cis be2 * item V (idx[b2 := j])))"
    using dct2_combined_item [of V idx b1 b2] b bl1 bl2
    by (simp add: sV be1_def be2_def j_def k1_def k2_def N1_def N2_def)
  have "cis (- be1) * (cis (- be2) * item V idx + cis be2 * item V (idx[b2 := j]))
      = (\<Sum>m2<N2. cis (- be1) * G m2 * complex_of_real (2 * cos (be2 + g m2)))"
    unfolding V0 V1 by (rule dct2_combine)
  also have "\<dots> = (\<Sum>m2<N2. (\<Sum>m1<N1. complex_of_real (v m1 m2) * cis (- dct_angle N1 k1 m1))
         * complex_of_real (2 * cos (dct_angle N2 k2 m2)))"
  proof (rule sum.cong [OF refl])
    fix m2
    have "cis (- be1) * G m2
        = (\<Sum>m1<N1. complex_of_real (v m1 m2)
             * (cis (- (2 * pi * real k1 * real m1 / real N1)) * cis (- be1)))"
      unfolding G_def sum_distrib_left by (rule sum.cong [OF refl]) (simp add: mult_ac)
    also have "\<dots> = (\<Sum>m1<N1. complex_of_real (v m1 m2) * cis (- dct_angle N1 k1 m1))"
    proof (rule sum.cong [OF refl])
      fix m1
      have "- (2 * pi * real k1 * real m1 / real N1) + - be1 = - dct_angle N1 k1 m1"
        using angle_split [OF NN(1), of k1 m1] by (simp add: be1_def)
      then show "complex_of_real (v m1 m2)
             * (cis (- (2 * pi * real k1 * real m1 / real N1)) * cis (- be1))
          = complex_of_real (v m1 m2) * cis (- dct_angle N1 k1 m1)"
        by (simp only: cis_mult)
    qed
    finally have "cis (- be1) * G m2
        = (\<Sum>m1<N1. complex_of_real (v m1 m2) * cis (- dct_angle N1 k1 m1))" .
    moreover have "be2 + g m2 = dct_angle N2 k2 m2"
      using angle_split [OF NN(2), of k2 m2] by (simp add: be2_def g_def)
    ultimately show "cis (- be1) * G m2 * complex_of_real (2 * cos (be2 + g m2))
        = (\<Sum>m1<N1. complex_of_real (v m1 m2) * cis (- dct_angle N1 k1 m1))
           * complex_of_real (2 * cos (dct_angle N2 k2 m2))"
      by (simp only:)
  qed
  finally have "Re (cis (- be1) * (cis (- be2) * item V idx + cis be2 * item V (idx[b2 := j])))
      = (\<Sum>m2<N2. (\<Sum>m1<N1. v m1 m2 * cos (dct_angle N1 k1 m1))
           * (2 * cos (dct_angle N2 k2 m2)))"
    by (simp only: Re_sum_real_cis)
  also have "\<dots> = (\<Sum>m2<N2. (\<Sum>m1<N1. X m1 m2 * cos (dct_angle N1 k1 m1))
           * (2 * cos (dct_angle N2 k2 m2)))"
  proof (rule sum.cong [OF refl])
    fix m2 assume "m2 \<in> {..<N2}"
    then have m2: "m2 < shape x ! b2" by (simp add: N2_def)
    have "(\<Sum>m1<N1. v m1 m2 * cos (dct_angle N1 k1 m1))
        = (\<Sum>m1<N1. X m1 m2 * cos (dct_angle N1 k1 m1))"
    proof (rule sum.cong [OF refl])
      fix m1 assume "m1 \<in> {..<N1}"
      then have m1: "m1 < shape x ! b1" by (simp add: N1_def)
      have "v m1 m2 = X m1 m2"
        unfolding v_def X_def N1_def N2_def
        using b bl1 bl2 ne m1 m2 by (rule double_interleave_item)
      then show "v m1 m2 * cos (dct_angle N1 k1 m1) = X m1 m2 * cos (dct_angle N1 k1 m1)"
        by simp
    qed
    then show "(\<Sum>m1<N1. v m1 m2 * cos (dct_angle N1 k1 m1)) * (2 * cos (dct_angle N2 k2 m2))
        = (\<Sum>m1<N1. X m1 m2 * cos (dct_angle N1 k1 m1)) * (2 * cos (dct_angle N2 k2 m2))"
      by simp
  qed
  finally have "item (dct2_combined V (length (shape V)) (shape V ! b1) (shape V ! b2) b1 b2) idx
      = 2 * (\<Sum>m2<N2. (\<Sum>m1<N1. X m1 m2 * cos (dct_angle N1 k1 m1))
           * (2 * cos (dct_angle N2 k2 m2)))"
    using c by simp
  also have "\<dots> = 2 * (\<Sum>m2<N2. (2 * (\<Sum>m1<N1. X m1 m2 * cos (dct_angle N1 k1 m1)))
           * cos (dct_angle N2 k2 m2))"
    by (simp add: mult_ac)
  finally show ?thesis
    by (simp add: dct2_spectrum_shape V_def X_def N1_def N2_def k1_def k2_def ndim_def)
qed

definition norm_scale :: "string option \<Rightarrow> nat \<Rightarrow> nat \<Rightarrow> real" where
  "norm_scale nrm N k = (if nrm = Some ''ortho'' then ortho_scale N k else 1)"

definition dct_sum2 :: "real array \<Rightarrow> nat list \<Rightarrow> nat \<Rightarrow> nat \<Rightarrow> real" where
  "dct_sum2 x idx b1 b2 =
     (\<Sum>m2<shape x ! b2. \<Sum>m1<shape x ! b1.
        item x (idx[b2 := interleave_index (shape x ! b2) m2,
                    b1 := interleave_index (shape x ! b1) m1])
          * cos (dct_angle (shape x ! b1) (idx ! b1) m1)
          * cos (dct_angle (shape x ! b2) (idx ! b2) m2))"

lemma dct_sum2_swap:
  assumes "b1 \<noteq> b2"
  shows "dct_sum2 x idx b2 b1 = dct_sum2 x idx b1 b2"
proof -
  have "dct_sum2 x idx b2 b1
      = (\<Sum>m1<shape x ! b1. \<Sum>m2<shape x ! b2.
        item x (idx[b2 := interleave_index (shape x ! b2) m2,
                    b1 := interleave_index (shape x ! b1) m1])
          * cos (dct_angle (shape x ! b1) (idx ! b1) m1)
          * cos (dct_angle (shape x ! b2) (idx ! b2) m2))"
    unfolding dct_sum2_def
    using assms by (intro sum.cong refl) (simp add: list_update_swap [of b1 b2] mult_ac)
  also have "\<dots> = dct_sum2 x idx b1 b2"
    unfolding dct_sum2_def by (rule sum.swap)
  finally show ?thesis .
qed

lemma dct2_kernel_item:
  assumes b: "in_bounds (shape x) idx" and b1: "b1 < ndim x" and b2: "b2 < ndim x"
    and ne: "b1 \<noteq> b2" and N1: "0 < shape x ! b1" and N2: "0 < shape x ! b2"
  shows "item (dct2_kernel x b1 b2 nrm) idx
     = 4 * dct_sum2 x idx b1 b2
         / (norm_scale nrm (shape x ! b1) (idx ! b1) * norm_scale nrm (shape x ! b2) (idx ! b2))"
proof -
  let ?out = "dct2_combined (dct2_spectrum x b1 b2) (ndim x) (shape x ! b1) (shape x ! b2) b1 b2"
  have "item ?out idx = 2 * (\<Sum>m2<shape x ! b2.
         (2 * (\<Sum>m1<shape x ! b1.
            item x (idx[b2 := interleave_index (shape x ! b2) m2,
                        b1 := interleave_index (shape x ! b1) m1])
              * cos (dct_angle (shape x ! b1) (idx ! b1) m1)))
         * cos (dct_angle (shape x ! b2) (idx ! b2) m2))"
    using assms by (rule dct2_unnormalized_item)
  also have "\<dots> = 4 * dct_sum2 x idx b1 b2"
    by (simp add: dct_sum2_def sum_distrib_left sum_distrib_right mult_ac)
  finally have u: "item ?out idx = 4 * dct_sum2 x idx b1 b2" .
  show ?thesis
  proof (cases "nrm = Some ''ortho''")
    case False
    with u show ?thesis by (simp add: dct2_kernel_def Let_def norm_scale_def)
  next
    case True
    have s: "shape ?out = shape x"
      using dct2_kernel_shape [OF b1 b2 N1 N2, of None] by (simp add: dct2_kernel_def Let_def)
    have no: "ndim ?out = ndim x" using s by (metis ndim_def)
    have 1: "item (dct_ortho_norm ?out b1) idx = item ?out idx / ortho_scale (shape ?out ! b1) (idx ! b1)"
      using b b1 N1 by (intro dct_ortho_norm_item) (simp_all add: s no)
    have s1: "shape (dct_ortho_norm ?out b1) = shape x"
      using dct_ortho_norm_shape [of b1 ?out] b1 N1 by (simp add: s no)
    have no1: "ndim (dct_ortho_norm ?out b1) = ndim x" using s1 by (metis ndim_def)
    have 2: "item (dct_ortho_norm (dct_ortho_norm ?out b1) b2) idx
        = item (dct_ortho_norm ?out b1) idx
            / ortho_scale (shape (dct_ortho_norm ?out b1) ! b2) (idx ! b2)"
      using b b2 N2 by (intro dct_ortho_norm_item) (simp_all add: s1 no1)
    show ?thesis
      using True by (simp add: dct2_kernel_def Let_def norm_scale_def 2 1 u s s1)
  qed
qed

lemma dct_sequential_item:
  assumes b: "in_bounds (shape x) idx" and b1: "b1 < ndim x" and b2: "b2 < ndim x"
    and ne: "b1 \<noteq> b2" and N1: "0 < shape x ! b1" and N2: "0 < shape x ! b2"
  shows "item (dct_kernel (dct_kernel x b1 nrm) b2 nrm) idx
     = 4 * dct_sum2 x idx b1 b2
         / (norm_scale nrm (shape x ! b1) (idx ! b1) * norm_scale nrm (shape x ! b2) (idx ! b2))"
proof -
  let ?y = "dct_kernel x b1 nrm"
  have bl1: "b1 < length (shape x)" and bl2: "b2 < length (shape x)"
    using b1 b2 by (simp_all add: ndim_def)
  have l: "b1 < length idx" "b2 < length idx" using b bl1 bl2 by (simp_all add: in_bounds_length)
  have s: "shape (dct_kernel x b1 n) = shape x" for n using b1 N1 by (rule dct_kernel_shape)
  have y: "item ?y (idx[b2 := interleave_index (shape x ! b2) m2])
      = 2 * (\<Sum>m1<shape x ! b1.
            item x (idx[b2 := interleave_index (shape x ! b2) m2,
                        b1 := interleave_index (shape x ! b1) m1])
              * cos (dct_angle (shape x ! b1) (idx ! b1) m1))
          / norm_scale nrm (shape x ! b1) (idx ! b1)" if "m2 < shape x ! b2" for m2
  proof -
    have "in_bounds (shape x) (idx[b2 := interleave_index (shape x ! b2) m2])"
      using b bl2 interleave_index_less [OF that] by (rule in_bounds_update_same)
    from dct_kernel_item [OF this b1 N1, of nrm] ne l show ?thesis
      by (simp add: norm_scale_def)
  qed
  have "item (dct_kernel ?y b2 nrm) idx
      = 2 * (\<Sum>m2<shape x ! b2. item ?y (idx[b2 := interleave_index (shape x ! b2) m2])
                  * cos (dct_angle (shape x ! b2) (idx ! b2) m2))
           / norm_scale nrm (shape x ! b2) (idx ! b2)"
    using dct_kernel_item [of ?y idx b2 nrm] b b2 N2 by (simp add: s ndim_def norm_scale_def)
  also have "(\<Sum>m2<shape x ! b2. item ?y (idx[b2 := interleave_index (shape x ! b2) m2])
                  * cos (dct_angle (shape x ! b2) (idx ! b2) m2))
      = (\<Sum>m2<shape x ! b2. 2 * (\<Sum>m1<shape x ! b1.
            item x (idx[b2 := interleave_index (shape x ! b2) m2,
                        b1 := interleave_index (shape x ! b1) m1])
              * cos (dct_angle (shape x ! b1) (idx ! b1) m1))
          / norm_scale nrm (shape x ! b1) (idx ! b1)
                  * cos (dct_angle (shape x ! b2) (idx ! b2) m2))"
    by (rule sum.cong [OF refl]) (simp add: y)
  also have "\<dots> = 2 * dct_sum2 x idx b1 b2 / norm_scale nrm (shape x ! b1) (idx ! b1)"
    by (simp add: dct_sum2_def sum_distrib_left sum_distrib_right sum_divide_distrib mult_ac)
  finally show ?thesis by simp
qed

lemma dct2_kernel_sequential:
  assumes b1: "b1 < ndim x" and b2: "b2 < ndim x"
    and ne: "b1 \<noteq> b2" and N1: "0 < shape x ! b1" and N2: "0 < shape x ! b2"
  shows "same_array (dct2_kernel x b1 b2 nrm) (dct_kernel (dct_kernel x b1 nrm) b2 nrm)"
    and "same_array (dct2_kernel x b1 b2 nrm) (dct_kernel (dct_kernel x b2 nrm) b1 nrm)"
proof -
  have s1: "shape (dct_kernel x b1 nrm) = shape x" using b1 N1 by (rule dct_kernel_shape)
  have s2: "shape (dct_kernel x b2 nrm) = shape x" using b2 N2 by (rule dct_kernel_shape)
  have t1: "shape (dct_kernel (dct_kernel x b1 nrm) b2 nrm) = shape x"
    using dct_kernel_shape [of b2 "dct_kernel x b1 nrm" nrm] b2 N2 by (simp add: s1 ndim_def)
  have t2: "shape (dct_kernel (dct_kernel x b2 nrm) b1 nrm) = shape x"
    using dct_kernel_shape [of b1 "dct_kernel x b2 nrm" nrm] b1 N1 by (simp add: s2 ndim_def)
  have s: "shape (dct2_kernel x b1 b2 nrm) = shape x" using b1 b2 N1 N2 by (rule dct2_kernel_shape)
  show "same_array (dct2_kernel x b1 b2 nrm) (dct_kernel (dct_kernel x b1 nrm) b2 nrm)"
    using assms
    by (simp add: same_array_def same_values_iff s t1 dct2_kernel_dtype dct_kernel_dtype
        dct2_kernel_item dct_sequential_item)
  have "item (dct_kernel (dct_kernel x b2 nrm) b1 nrm) idx = item (dct2_kernel x b1 b2 nrm) idx"
    if "in_bounds (shape x) idx" for idx
    using dct_sequential_item [OF that b2 b1 ne [symmetric] N2 N1, of nrm]
      dct2_kernel_item [OF that b1 b2 ne N1 N2, of nrm] dct_sum2_swap [OF ne, of x idx]
    by (simp add: mult.commute)
  then show "same_array (dct2_kernel x b1 b2 nrm) (dct_kernel (dct_kernel x b2 nrm) b1 nrm)"
    by (simp add: same_array_def same_values_iff s t2 dct2_kernel_dtype dct_kernel_dtype)
qed

definition grid_example :: "real array" where
  "grid_example =
     \<lparr>shape = [2, 3], dtype = Float32, item = (\<lambda>idx. real (3 * idx ! 0 + idx ! 1))\<rparr>"

text \<open>
  Claim C2. For a two-dimensional real array with axes of length at least one and every
  norm setting, \<open>dctn(x, axes=(0,1), norm)\<close>, which is computed by the fast path \<open>_dct2\<close>,
  returns the same array as \<open>dct\<close> along axis 0 followed by \<open>dct\<close> along axis 1, and as
  \<open>dct\<close> along axis 1 followed by \<open>dct\<close> along axis 0. The arithmetic of the model is exact;
  the floating-point tolerance of the claim is the rounding error that the model leaves out.
\<close>

theorem dctn_2d_equals_sequential:
  assumes "ndim x = 2" "0 < shape x ! 0" "0 < shape x ! 1"
  shows "same_result (dctn x 2 None (Some [0, 1]) nrm)
           (then_call (dct x 2 None 0 nrm) (\<lambda>y. dct y 2 None 1 nrm))
       \<and> same_result (dctn x 2 None (Some [0, 1]) nrm)
           (then_call (dct x 2 None 1 nrm) (\<lambda>y. dct y 2 None 0 nrm))"
proof -
  have c0: "canonicalize_axis 0 (ndim x) = Inr 0" and c1: "canonicalize_axis 1 (ndim x) = Inr 1"
    using assms(1) by (simp_all add: canonicalize_axis_def)
  have 1: "dctn x 2 None (Some [0, 1]) nrm = Inr (dct2_kernel x 0 1 nrm)"
    by (subst dctn.simps) (simp add: pad_axes_def dct2_unfold [OF c0 c1])
  have 2: "then_call (dct x 2 None 0 nrm) (\<lambda>y. dct y 2 None 1 nrm)
      = Inr (dct_kernel (dct_kernel x 0 nrm) 1 nrm)"
    using assms(1) c0 c1 by (simp add: then_call_def dct_unfold dct_kernel_ndim pad_axis_None)
  have 3: "then_call (dct x 2 None 1 nrm) (\<lambda>y. dct y 2 None 0 nrm)
      = Inr (dct_kernel (dct_kernel x 1 nrm) 0 nrm)"
    using assms(1) c0 c1 by (simp add: then_call_def dct_unfold dct_kernel_ndim pad_axis_None)
  show ?thesis
    unfolding 1 2 3 same_result_def
    using dct2_kernel_sequential [of 0 x 1 nrm] assms by simp
qed

theorem dctn_2d_equals_sequential_witness:
  "ndim grid_example = 2 \<and> 0 < shape grid_example ! 0 \<and> 0 < shape grid_example ! 1
   \<and> same_result (dctn grid_example 2 None (Some [0, 1]) (Some ''ortho''))
           (then_call (dct grid_example 2 None 0 (Some ''ortho''))
              (\<lambda>y. dct y 2 None 1 (Some ''ortho'')))
   \<and> same_result (dctn grid_example 2 None (Some [0, 1]) (Some ''ortho''))
           (then_call (dct grid_example 2 None 1 (Some ''ortho''))
              (\<lambda>y. dct y 2 None 0 (Some ''ortho'')))"
proof -
  have 1: "ndim grid_example = 2" by (simp add: ndim_def grid_example_def)
  have 2: "0 < shape grid_example ! 0" by (simp add: grid_example_def)
  have 3: "0 < shape grid_example ! 1" by (simp add: grid_example_def)
  from dctn_2d_equals_sequential [OF 1 2 3, of "Some ''ortho''"] 1 2 3
  show ?thesis by simp
qed

section \<open>Axes: errors and negative indices\<close>

definition square_example :: "real array" where
  "square_example =
     \<lparr>shape = [2, 2], dtype = Float32, item = (\<lambda>idx. real (2 * idx ! 0 + idx ! 1))\<rparr>"




lemma lax_pad_ndim: "lax_pad x v config = Inr y \<Longrightarrow> ndim y = ndim x"
  by (auto simp: lax_pad_def Let_def ndim_def split: if_splits)

lemma pad_axes_ndim: "pad_axes x s axes = Inr y \<Longrightarrow> ndim y = ndim x"
  by (auto simp: pad_axes_def Let_def lax_pad_ndim split: option.splits)














lemma dctn_small:
  assumes "length axes = 1 \<or> length axes = 2"
  shows "dctn y type s (Some axes) nrm =
     (if type \<noteq> 2 then Inl NotImplementedError
      else if length axes = 1
        then (case first_length s of Inl e \<Rightarrow> Inl e | Inr n \<Rightarrow> dct y 2 n (axes ! 0) nrm)
        else (case pad_axes y s axes of Inl e \<Rightarrow> Inl e | Inr x \<Rightarrow> dct2 x axes nrm))"
  using assms by (subst dctn.simps) (auto split: sum.splits)





lemma dctn_two_axes_shape:
  assumes p: "pad_axes x s [a1, a2] = Inr y"
    and c: "canonicalize_axis a1 (ndim x) = Inr b1" "canonicalize_axis a2 (ndim x) = Inr b2"
    and ne: "a1 \<noteq> a2" "b1 \<noteq> b2" and pos: "0 < shape y ! b1" "0 < shape y ! b2"
  shows "result_shape (dctn x 2 s (Some [a1, a2]) nrm) = Inr (shape y)"
proof -
  have n: "ndim y = ndim x" using p by (rule pad_axes_ndim)
  have b: "b1 < ndim y" "b2 < ndim y" using c by (simp_all add: n canonicalize_axis_less)
  have "dct2 y [a1, a2] nrm = Inr (dct2_kernel y b1 b2 nrm)"
    using dct2_unfold [of a1 y b1 a2 b2 nrm] c ne by (simp add: n)
  then show ?thesis
    using b pos by (simp add: dctn_small p result_shape_def dct2_kernel_shape)
qed

lemma idctn_two_axes_shape:
  assumes p: "pad_axes x s [a1, a2] = Inr y"
    and c: "canonicalize_axis a1 (ndim x) = Inr b1" "canonicalize_axis a2 (ndim x) = Inr b2"
    and pos: "0 < shape y ! b1" "0 < shape y ! b2"
  shows "result_shape (idctn x 2 s (Some [a1, a2]) nrm) = Inr (shape y)"
proof -
  let ?p = "norm_passes nrm"
  have n: "ndim y = ndim x" using p by (rule pad_axes_ndim)
  have b: "b1 < ndim y" "b2 < ndim y" using c by (simp_all add: n canonicalize_axis_less)
  have 1: "idct y 2 None a1 nrm = Inr (idct_kernel ?p y b1)"
    using c by (simp add: idct_unfold n pad_axis_None)
  have s1: "shape (idct_kernel ?p y b1) = shape y"
    using b(1) pos(1) by (rule idct_kernel_shape)
  then have n1: "ndim (idct_kernel ?p y b1) = ndim x" using n by (metis ndim_def)
  have 2: "idct (idct_kernel ?p y b1) 2 None a2 nrm = Inr (idct_kernel ?p (idct_kernel ?p y b1) b2)"
    using c by (simp add: idct_unfold n1 pad_axis_None)
  have "shape (idct_kernel ?p (idct_kernel ?p y b1) b2) = shape (idct_kernel ?p y b1)"
    using b(2) pos(2) by (intro idct_kernel_shape) (simp_all add: s1 n1 n)
  then show ?thesis
    by (simp add: idctn_def p 1 2 s1 result_shape_def)
qed

lemma pad_axes_Some:
  assumes "\<forall>a<ndim x. 0 \<le> int (shape x ! a)
             + (case map_of (rev (zip axes s)) (int a) of
                  Some n \<Rightarrow> n - int (shape x ! a) | None \<Rightarrow> 0)"
  shows "\<exists>y. pad_axes x (Some s) axes = Inr y
           \<and> shape y = map (\<lambda>a. nat (int (shape x ! a)
                 + (case map_of (rev (zip axes s)) (int a) of
                      Some n \<Rightarrow> n - int (shape x ! a) | None \<Rightarrow> 0))) [0..<ndim x]"
proof -
  let ?h = "\<lambda>a. case map_of (rev (zip axes s)) (int a) of
                  Some n \<Rightarrow> n - int (shape x ! a) | None \<Rightarrow> 0"
  have "\<exists>y. lax_pad x 0 (map (\<lambda>a. (0, ?h a, 0)) [0..<ndim x]) = Inr y
           \<and> shape y = map (\<lambda>a. nat (int (shape x ! a) + ?h a)) [0..<ndim x]
           \<and> dtype y = dtype x
           \<and> (\<forall>idx. length idx = ndim x \<longrightarrow>
                 item y idx = (if in_bounds (shape x) idx then item x idx else 0))"
    using assms by (intro lax_pad_high) simp_all
  then show ?thesis by (auto simp: pad_axes_def Let_def)
qed

lemma square_ndim: "ndim square_example = 2"
  by (simp add: ndim_def square_example_def)

lemma square_shape: "shape square_example = [2, 2]"
  by (simp add: square_example_def)

lemma square_pad_negative:
  "\<exists>y. pad_axes square_example (Some [3, 3]) [- 1, - 2] = Inr y \<and> shape y = [2, 2]"
  using pad_axes_Some [of square_example "[- 1, - 2]" "[3, 3]"]
  by (simp add: square_ndim square_shape less_Suc_eq numeral_2_eq_2 all_conj_distrib)

lemma square_pad_positive:
  "\<exists>y. pad_axes square_example (Some [3, 3]) [1, 0] = Inr y \<and> shape y = [3, 3]"
  using pad_axes_Some [of square_example "[1, 0]" "[3, 3]"]
  by (simp add: square_ndim square_shape less_Suc_eq numeral_2_eq_2 all_conj_distrib)


lemma square_canonical:
  "canonicalize_axis (- 1) (ndim square_example) = Inr 1"
  "canonicalize_axis (- 2) (ndim square_example) = Inr 0"
  "canonicalize_axis 0 (ndim square_example) = Inr 0"
  "canonicalize_axis 1 (ndim square_example) = Inr 1"
  by (simp_all add: square_ndim canonicalize_axis_def)

text \<open>
  Claim C6. On a 2 x 2 array with \<open>s = (3, 3)\<close>, \<open>dctn\<close> and \<open>idctn\<close> with the negative axes
  \<open>(-1, -2)\<close> return a 2 x 2 result: the pad stage looks the axis numbers \<open>0..ndim-1\<close> up in
  a dictionary keyed by the axes as given, finds no negative key, and pads nothing. With
  the canonical axes \<open>(1, 0)\<close> the same calls return a 3 x 3 result.
\<close>

theorem negative_axes_skip_padding:
  "result_shape (dctn square_example 2 (Some [3, 3]) (Some [- 1, - 2]) None) = Inr [2, 2]
   \<and> result_shape (dctn square_example 2 (Some [3, 3]) (Some [1, 0]) None) = Inr [3, 3]
   \<and> result_shape (idctn square_example 2 (Some [3, 3]) (Some [- 1, - 2]) None) = Inr [2, 2]
   \<and> result_shape (idctn square_example 2 (Some [3, 3]) (Some [1, 0]) None) = Inr [3, 3]"
proof -
  obtain y where y: "pad_axes square_example (Some [3, 3]) [- 1, - 2] = Inr y" "shape y = [2, 2]"
    using square_pad_negative by blast
  obtain z where z: "pad_axes square_example (Some [3, 3]) [1, 0] = Inr z" "shape z = [3, 3]"
    using square_pad_positive by blast
  have "result_shape (dctn square_example 2 (Some [3, 3]) (Some [- 1, - 2]) None) = Inr (shape y)"
    using y(1) square_canonical(1,2) by (rule dctn_two_axes_shape) (simp_all add: y(2))
  moreover have "result_shape (dctn square_example 2 (Some [3, 3]) (Some [1, 0]) None)
      = Inr (shape z)"
    using z(1) square_canonical(4,3) by (rule dctn_two_axes_shape) (simp_all add: z(2))
  moreover have "result_shape (idctn square_example 2 (Some [3, 3]) (Some [- 1, - 2]) None)
      = Inr (shape y)"
    using y(1) square_canonical(1,2) by (rule idctn_two_axes_shape) (simp_all add: y(2))
  moreover have "result_shape (idctn square_example 2 (Some [3, 3]) (Some [1, 0]) None)
      = Inr (shape z)"
    using z(1) square_canonical(4,3) by (rule idctn_two_axes_shape) (simp_all add: z(2))
  ultimately show ?thesis by (simp add: y(2) z(2))
qed

text \<open>For \<open>dct\<close> and \<open>idct\<close> themselves a negative axis does stand for rank + axis.\<close>

lemma dct_negative_axis:
  assumes "- int (ndim x) \<le> a" "a < 0"
  shows "dct x type n a nrm = dct x type n (int (ndim x) + a) nrm"
    and "idct x type n a nrm = idct x type n (int (ndim x) + a) nrm"
  using assms by (simp_all add: dct_unfold idct_unfold canonicalize_axis_def add.commute)











end
